theory Spec2Isabelle
  imports Main "HOL-Library.Word"
begin

unbundle bit_operations_syntax

section \<open>PM QoS constraint aggregation (kernel/power/qos.c)\<close>

text \<open>
  A shallow embedding of the PM QoS core of \<^verbatim>\<open>kernel/power/qos.c\<close>.  Requests live in a
  store indexed by their address, since a request stays reachable by its owner while it is
  linked on the list of a constraints object.  A constraints object holds the addresses of
  its requests in list order.  \<^verbatim>\<open>BUG()\<close> and a NULL or out-of-range dereference are
  results of the sum type \<open>fault + 'a\<close>.  The spinlock and the trace points have no
  counterpart: every function is one atomic step.
\<close>

subsection \<open>Data\<close>

type_synonym s32 = "32 word"
type_synonym addr = nat
type_synonym cpumask = "nat set"

datatype fault = BUG | OOPS

text \<open>The NULL pointer is address 0.\<close>

definition NULL :: addr where
  "NULL = 0"

text \<open>
  The enumerations of \<^verbatim>\<open>include/linux/pm_qos.h\<close>.  The constraint type has a zero value
  that is none of the four aggregation kinds (\<^verbatim>\<open>pm_qos_update_constraints\<close> tests
  \<^verbatim>\<open>constraints->type\<close> for it); a zeroed request has type \<^verbatim>\<open>PM_QOS_REQ_ALL_CORES\<close>.
\<close>

datatype pm_qos_type =
  PM_QOS_UNITIALIZED | PM_QOS_MAX | PM_QOS_MIN | PM_QOS_SUM | PM_QOS_FORCE_MAX

datatype pm_qos_req_type =
  PM_QOS_REQ_ALL_CORES | PM_QOS_REQ_AFFINE_CORES | PM_QOS_REQ_AFFINE_IRQ

datatype pm_qos_req_action =
  PM_QOS_ADD_REQ | PM_QOS_UPDATE_REQ | PM_QOS_REMOVE_REQ

text \<open>
  \<^verbatim>\<open>struct pm_qos_request\<close>: \<open>prio\<close> is \<^verbatim>\<open>node.prio\<close>, \<open>work_pending\<close> says whether the
  delayed work of the request is queued.
\<close>

record pm_qos_request =
  req_type :: pm_qos_req_type
  cpus_affine :: cpumask
  irq :: nat
  prio :: s32
  pm_qos_class :: int
  work_pending :: bool

text \<open>
  \<^verbatim>\<open>struct pm_qos_constraints\<close>: \<open>plist\<close> is the priority list \<^verbatim>\<open>list\<close> as the addresses
  of its requests from first to last, \<open>ctype\<close> is \<^verbatim>\<open>type\<close>, \<open>notifiers\<close> is the notifier
  chain (\<open>None\<close> for a NULL pointer).
\<close>

record pm_qos_constraints =
  plist :: "addr list"
  target_value :: s32
  target_per_cpu :: "s32 list"
  default_value :: s32
  no_constraint_value :: s32
  ctype :: pm_qos_type
  notifiers :: "nat option"

text \<open>
  Constants and globals that the file takes from headers and from the CPU hotplug core:
  \<^verbatim>\<open>PM_QOS_DEFAULT_VALUE\<close>, \<^verbatim>\<open>NR_CPUS\<close> and \<^verbatim>\<open>cpu_possible_mask\<close>, with the part of
  the IRQ core that \<^verbatim>\<open>pm_qos_add_request_trace\<close> and \<^verbatim>\<open>pm_qos_remove_request\<close> consult.
  They are parameters of the model.
\<close>

record kconfig =
  PM_QOS_DEFAULT_VALUE :: s32
  NR_CPUS :: nat
  cpu_possible_mask :: cpumask
  irq_can_set_affinity :: "nat \<Rightarrow> bool"
  irq_affinity :: "nat \<Rightarrow> cpumask"
  irq_set_affinity_notifier :: "nat \<Rightarrow> int"

subsection \<open>CPU masks\<close>

text \<open>\<^verbatim>\<open>for_each_cpu\<close>: the bits of a mask below \<^verbatim>\<open>NR_CPUS\<close>, in ascending order.\<close>

definition for_each_cpu :: "kconfig \<Rightarrow> cpumask \<Rightarrow> nat list" where
  "for_each_cpu k cpus = filter (\<lambda>cpu. cpu \<in> cpus) [0..<NR_CPUS k]"

definition cpumask_setall :: "kconfig \<Rightarrow> cpumask" where
  "cpumask_setall k = set [0..<NR_CPUS k]"

definition cpumask_empty :: "kconfig \<Rightarrow> cpumask \<Rightarrow> bool" where
  "cpumask_empty k cpus = (for_each_cpu k cpus = [])"

subsection \<open>Priority lists\<close>

text \<open>
  Modelled from the spec: the priority list primitives \<^verbatim>\<open>plist_add\<close>, \<^verbatim>\<open>plist_del\<close>,
  \<^verbatim>\<open>plist_node_init\<close>, \<^verbatim>\<open>plist_first\<close> and \<^verbatim>\<open>plist_last\<close> (lib/plist.c and
  include/linux/plist.h) are not among the sources.  The specification says that the
  facility "maintains ordered constraint lists": \<open>plist_add\<close> links a node in front of the
  first node of strictly greater priority, in the signed order of \<^verbatim>\<open>int\<close>, \<open>plist_del\<close>
  unlinks the node, \<open>plist_node_init\<close> sets the priority of an unlinked node.
\<close>

fun plist_add :: "(addr \<Rightarrow> pm_qos_request) \<Rightarrow> addr \<Rightarrow> addr list \<Rightarrow> addr list" where
  "plist_add m node [] = [node]"
| "plist_add m node (iter # rest) =
     (if prio (m node) <s prio (m iter) then node # iter # rest
      else iter # plist_add m node rest)"

definition plist_del :: "addr \<Rightarrow> addr list \<Rightarrow> addr list" where
  "plist_del node xs = removeAll node xs"

definition plist_node_init ::
  "(addr \<Rightarrow> pm_qos_request) \<Rightarrow> addr \<Rightarrow> s32 \<Rightarrow> (addr \<Rightarrow> pm_qos_request)" where
  "plist_node_init m node p = m(node := (m node)\<lparr>prio := p\<rparr>)"

definition plist_head_empty :: "addr list \<Rightarrow> bool" where
  "plist_head_empty xs = (xs = [])"

definition plist_first :: "addr list \<Rightarrow> addr" where
  "plist_first xs = hd xs"

definition plist_last :: "addr list \<Rightarrow> addr" where
  "plist_last xs = last xs"

subsection \<open>Aggregation\<close>

text \<open>\<^verbatim>\<open>pm_qos_get_value\<close>; the \<^verbatim>\<open>default:\<close> branch of the switch is \<^verbatim>\<open>BUG()\<close>.\<close>

definition pm_qos_get_value ::
  "(addr \<Rightarrow> pm_qos_request) \<Rightarrow> pm_qos_constraints \<Rightarrow> fault + s32" where
  "pm_qos_get_value m c =
     (if plist_head_empty (plist c) then Inr (no_constraint_value c)
      else case ctype c of
          PM_QOS_MIN \<Rightarrow> Inr (prio (m (plist_first (plist c))))
        | PM_QOS_MAX \<Rightarrow> Inr (prio (m (plist_last (plist c))))
        | PM_QOS_FORCE_MAX \<Rightarrow> Inr (prio (m (plist_last (plist c))))
        | PM_QOS_SUM \<Rightarrow> Inr (fold (\<lambda>node total_value. total_value + prio (m node)) (plist c) 0)
        | PM_QOS_UNITIALIZED \<Rightarrow> Inl BUG)"

definition pm_qos_read_value :: "pm_qos_constraints \<Rightarrow> s32" where
  "pm_qos_read_value c = target_value c"

definition pm_qos_set_value :: "pm_qos_constraints \<Rightarrow> s32 \<Rightarrow> pm_qos_constraints" where
  "pm_qos_set_value c v = c\<lparr>target_value := v\<rparr>"

text \<open>
  The body of \<^verbatim>\<open>pm_qos_set_value_for_cpus\<close>.  \<open>qos_val_cpus\<close> is the inner loop over the
  CPUs of one request, \<open>qos_val_reqs\<close> the outer loop over the list; both stop at
  \<^verbatim>\<open>BUG()\<close>, which the switch reaches for every type but the three it names.
\<close>

fun qos_val_cpus :: "pm_qos_type \<Rightarrow> s32 \<Rightarrow> nat list \<Rightarrow> s32 list \<Rightarrow> fault + s32 list" where
  "qos_val_cpus t p [] qos_val = Inr qos_val"
| "qos_val_cpus t p (cpu # cpus) qos_val =
     (case t of
        PM_QOS_MIN \<Rightarrow>
          qos_val_cpus t p cpus (if p <s qos_val ! cpu then qos_val[cpu := p] else qos_val)
      | PM_QOS_MAX \<Rightarrow>
          qos_val_cpus t p cpus (if qos_val ! cpu <s p then qos_val[cpu := p] else qos_val)
      | PM_QOS_FORCE_MAX \<Rightarrow> qos_val_cpus t p cpus (qos_val[cpu := p])
      | PM_QOS_SUM \<Rightarrow> Inl BUG
      | PM_QOS_UNITIALIZED \<Rightarrow> Inl BUG)"

fun qos_val_reqs ::
  "kconfig \<Rightarrow> (addr \<Rightarrow> pm_qos_request) \<Rightarrow> pm_qos_type \<Rightarrow> addr list \<Rightarrow> s32 list
     \<Rightarrow> fault + s32 list" where
  "qos_val_reqs k m t [] qos_val = Inr qos_val"
| "qos_val_reqs k m t (req # reqs) qos_val =
     (case qos_val_cpus t (prio (m req)) (for_each_cpu k (cpus_affine (m req))) qos_val of
        Inl e \<Rightarrow> Inl e
      | Inr qos_val' \<Rightarrow> qos_val_reqs k m t reqs qos_val')"

definition pm_qos_set_value_for_cpus ::
  "kconfig \<Rightarrow> (addr \<Rightarrow> pm_qos_request) \<Rightarrow> pm_qos_constraints \<Rightarrow> fault + pm_qos_constraints" where
  "pm_qos_set_value_for_cpus k m c =
     (case qos_val_reqs k m (ctype c) (plist c) (replicate (NR_CPUS k) (default_value c)) of
        Inl e \<Rightarrow> Inl e
      | Inr qos_val \<Rightarrow>
          Inr (c\<lparr>target_per_cpu :=
                 fold (\<lambda>cpu tpc. tpc[cpu := qos_val ! cpu])
                   (for_each_cpu k (cpu_possible_mask k)) (target_per_cpu c)\<rparr>))"

subsection \<open>Updating a constraints object\<close>

text \<open>
  The parameter handed to the notifier chain: the caller's \<^verbatim>\<open>notify_param\<close>, or the
  address of the request's \<^verbatim>\<open>pm_qos_class\<close> field when the caller passed NULL.
\<close>

datatype notify_arg = PARAM nat | REQ_CLASS addr

text \<open>One call of \<^verbatim>\<open>blocking_notifier_call_chain\<close>: the chain, the value, the parameter.\<close>

type_synonym notifier_call = "nat \<times> s32 \<times> notify_arg"

text \<open>The \<^verbatim>\<open>switch (action)\<close> of \<^verbatim>\<open>pm_qos_update_target\<close>, on the store and the list.\<close>

definition pm_qos_list_action ::
  "(addr \<Rightarrow> pm_qos_request) \<Rightarrow> addr list \<Rightarrow> addr \<Rightarrow> pm_qos_req_action \<Rightarrow> s32
     \<Rightarrow> (addr \<Rightarrow> pm_qos_request) \<times> addr list" where
  "pm_qos_list_action m xs node action new_value =
     (case action of
        PM_QOS_REMOVE_REQ \<Rightarrow> (m, plist_del node xs)
      | PM_QOS_UPDATE_REQ \<Rightarrow>
          (let xs' = plist_del node xs; m' = plist_node_init m node new_value
           in (m', plist_add m' node xs'))
      | PM_QOS_ADD_REQ \<Rightarrow>
          (let m' = plist_node_init m node new_value in (m', plist_add m' node xs)))"

text \<open>
  \<^verbatim>\<open>pm_qos_update_target\<close> returns its \<^verbatim>\<open>int\<close> with the store, the constraints object
  and the notifier calls it made.  Calling the chain through a NULL \<^verbatim>\<open>c->notifiers\<close>,
  which only the \<^verbatim>\<open>PM_QOS_FORCE_MAX\<close> branch does unguarded, is \<open>OOPS\<close>.
\<close>

definition pm_qos_update_target ::
  "kconfig \<Rightarrow> (addr \<Rightarrow> pm_qos_request) \<Rightarrow> pm_qos_constraints \<Rightarrow> addr
     \<Rightarrow> pm_qos_req_action \<Rightarrow> s32 \<Rightarrow> nat option
     \<Rightarrow> fault + (int \<times> (addr \<Rightarrow> pm_qos_request) \<times> pm_qos_constraints \<times> notifier_call list)"
  where
  "pm_qos_update_target k m c req action val notify_param =
     (case pm_qos_get_value m c of
        Inl e \<Rightarrow> Inl e
      | Inr prev_value \<Rightarrow>
          (let new_value = (if val = PM_QOS_DEFAULT_VALUE k then default_value c else val);
               (m', xs') = pm_qos_list_action m (plist c) req action new_value;
               c1 = c\<lparr>plist := xs'\<rparr>
           in case pm_qos_get_value m' c1 of
                Inl e \<Rightarrow> Inl e
              | Inr curr_value \<Rightarrow>
                  (case pm_qos_set_value_for_cpus k m' (pm_qos_set_value c1 curr_value) of
                     Inl e \<Rightarrow> Inl e
                   | Inr c' \<Rightarrow>
                       (let arg = (case notify_param of
                                     None \<Rightarrow> REQ_CLASS req | Some p \<Rightarrow> PARAM p)
                        in if ctype c' = PM_QOS_FORCE_MAX then
                             (case notifiers c' of
                                None \<Rightarrow> Inl OOPS
                              | Some nh \<Rightarrow> Inr (1, m', c', [(nh, curr_value, arg)]))
                           else if prev_value \<noteq> curr_value then
                             Inr (1, m', c',
                                  (case notifiers c' of
                                     None \<Rightarrow> []
                                   | Some nh \<Rightarrow> [(nh, curr_value, arg)]))
                           else Inr (0, m', c', [])))))"

subsection \<open>The classes\<close>

text \<open>
  \<^verbatim>\<open>struct pm_qos_object\<close> with the constraints it points to (\<open>None\<close> for the NULL
  pointer of \<^verbatim>\<open>null_pm_qos\<close>) and the minor of its misc device.
\<close>

record pm_qos_object =
  constraints :: "pm_qos_constraints option"
  miscdev_minor :: int
  obj_name :: string

text \<open>
  The global state: the request objects by address, \<^verbatim>\<open>pm_qos_array\<close>, the notifier
  calls made so far, and the addresses handed out by \<^verbatim>\<open>kzalloc\<close> and not yet freed.
\<close>

record pm_qos_state =
  requests :: "addr \<Rightarrow> pm_qos_request"
  pm_qos_array :: "pm_qos_object list"
  notified :: "notifier_call list"
  allocated :: "addr set"

text \<open>
  \<^verbatim>\<open>PM_QOS_NUM_CLASSES\<close> is the size of \<^verbatim>\<open>pm_qos_array\<close> (the \<^verbatim>\<open>BUILD_BUG_ON\<close> of
  \<^verbatim>\<open>pm_qos_power_init\<close>); \<^verbatim>\<open>PM_QOS_CPU_DMA_LATENCY\<close> is the slot of
  \<^verbatim>\<open>cpu_dma_pm_qos\<close>, which follows \<^verbatim>\<open>null_pm_qos\<close>.
\<close>

definition PM_QOS_NUM_CLASSES :: "pm_qos_state \<Rightarrow> nat" where
  "PM_QOS_NUM_CLASSES s = length (pm_qos_array s)"

definition PM_QOS_CPU_DMA_LATENCY :: nat where
  "PM_QOS_CPU_DMA_LATENCY = 1"

text \<open>The errno values of \<^verbatim>\<open>errno-base.h\<close>.\<close>

definition EPERM :: int where
  "EPERM = 1"

definition ENOMEM :: int where
  "ENOMEM = 12"

text \<open>
  The expression \<^verbatim>\<open>pm_qos_array[pm_qos_class]->constraints\<close>, read as an object: an index
  outside the array and a NULL \<^verbatim>\<open>constraints\<close> pointer are faults.
\<close>

definition pm_qos_class_constraints :: "pm_qos_state \<Rightarrow> int \<Rightarrow> fault + pm_qos_constraints" where
  "pm_qos_class_constraints s cls =
     (if 0 \<le> cls \<and> cls < int (PM_QOS_NUM_CLASSES s) then
        (case constraints (pm_qos_array s ! nat cls) of
           None \<Rightarrow> Inl OOPS
         | Some c \<Rightarrow> Inr c)
      else Inl OOPS)"

text \<open>
  The call \<^verbatim>\<open>pm_qos_update_target(pm_qos_array[cls]->constraints, req, action, value,
  notify_param)\<close> as every caller in the file makes it: what the callee writes through
  the two pointers lands in the class and in the request store.
\<close>

definition pm_qos_update_target_class ::
  "kconfig \<Rightarrow> pm_qos_state \<Rightarrow> int \<Rightarrow> addr \<Rightarrow> pm_qos_req_action \<Rightarrow> s32 \<Rightarrow> nat option
     \<Rightarrow> fault + (int \<times> pm_qos_state)" where
  "pm_qos_update_target_class k s cls req action val notify_param =
     (case pm_qos_class_constraints s cls of
        Inl e \<Rightarrow> Inl e
      | Inr c \<Rightarrow>
          (case pm_qos_update_target k (requests s) c req action val notify_param of
             Inl e \<Rightarrow> Inl e
           | Inr (ret, m', c', calls) \<Rightarrow>
               Inr (ret,
                    s\<lparr>requests := m',
                      pm_qos_array := (pm_qos_array s)
                        [nat cls := (pm_qos_array s ! nat cls)\<lparr>constraints := Some c'\<rparr>],
                      notified := notified s @ calls\<rparr>)))"

definition pm_qos_request :: "pm_qos_state \<Rightarrow> int \<Rightarrow> fault + s32" where
  "pm_qos_request s cls =
     (case pm_qos_class_constraints s cls of
        Inl e \<Rightarrow> Inl e
      | Inr c \<Rightarrow> Inr (pm_qos_read_value c))"

text \<open>A CPU number outside \<^verbatim>\<open>target_per_cpu\<close> is a fault.\<close>

definition pm_qos_request_for_cpu :: "pm_qos_state \<Rightarrow> int \<Rightarrow> nat \<Rightarrow> fault + s32" where
  "pm_qos_request_for_cpu s cls cpu =
     (case pm_qos_class_constraints s cls of
        Inl e \<Rightarrow> Inl e
      | Inr c \<Rightarrow>
          (if cpu < length (target_per_cpu c) then Inr (target_per_cpu c ! cpu)
           else Inl OOPS))"

definition pm_qos_request_active :: "(addr \<Rightarrow> pm_qos_request) \<Rightarrow> addr \<Rightarrow> bool" where
  "pm_qos_request_active m req = (pm_qos_class (m req) \<noteq> 0)"

subsection \<open>Requests\<close>

text \<open>What \<^verbatim>\<open>kzalloc\<close> and \<^verbatim>\<open>memset(req, 0, sizeof(*req))\<close> leave in a request.\<close>

definition zero_request :: pm_qos_request where
  "zero_request =
     \<lparr>req_type = PM_QOS_REQ_ALL_CORES, cpus_affine = {}, irq = 0, prio = 0,
      pm_qos_class = 0, work_pending = False\<rparr>"

text \<open>
  \<^verbatim>\<open>if (delayed_work_pending(&req->work)) cancel_delayed_work_sync(&req->work);\<close>
\<close>

definition cancel_pending_work :: "pm_qos_state \<Rightarrow> addr \<Rightarrow> pm_qos_state" where
  "cancel_pending_work s req =
     (if work_pending (requests s req)
      then s\<lparr>requests := (requests s)(req := (requests s req)\<lparr>work_pending := False\<rparr>)\<rparr>
      else s)"

text \<open>
  \<^verbatim>\<open>__pm_qos_update_request\<close>, named without the leading underscores.
\<close>

definition pm_qos_update_request_internal ::
  "kconfig \<Rightarrow> pm_qos_state \<Rightarrow> addr \<Rightarrow> s32 \<Rightarrow> nat option \<Rightarrow> fault + pm_qos_state" where
  "pm_qos_update_request_internal k s req new_value notify_param =
     (if new_value \<noteq> prio (requests s req) then
        (case pm_qos_update_target_class k s (pm_qos_class (requests s req)) req
                PM_QOS_UPDATE_REQ new_value notify_param of
           Inl e \<Rightarrow> Inl e
         | Inr (ret, s') \<Rightarrow> Inr s')
      else Inr s)"

text \<open>
  \<^verbatim>\<open>pm_qos_irq_release\<close> and \<^verbatim>\<open>pm_qos_irq_notify\<close> (the \<^verbatim>\<open>CONFIG_SMP\<close> build); the
  request is the one that embeds the \<^verbatim>\<open>irq_affinity_notify\<close>.
\<close>

definition pm_qos_irq_release :: "kconfig \<Rightarrow> pm_qos_state \<Rightarrow> addr \<Rightarrow> fault + pm_qos_state" where
  "pm_qos_irq_release k s req =
     (let cls = pm_qos_class (requests s req)
      in case pm_qos_class_constraints s cls of
           Inl e \<Rightarrow> Inl e
         | Inr c \<Rightarrow>
             (let s1 = s\<lparr>requests :=
                          (requests s)(req := (requests s req)\<lparr>cpus_affine := cpumask_setall k\<rparr>)\<rparr>
              in case pm_qos_update_target_class k s1 cls req PM_QOS_UPDATE_REQ
                        (default_value c) None of
                   Inl e \<Rightarrow> Inl e
                 | Inr (ret, s') \<Rightarrow> Inr s'))"

definition pm_qos_irq_notify ::
  "kconfig \<Rightarrow> pm_qos_state \<Rightarrow> addr \<Rightarrow> cpumask \<Rightarrow> fault + pm_qos_state" where
  "pm_qos_irq_notify k s req cpus =
     (let cls = pm_qos_class (requests s req)
      in case pm_qos_class_constraints s cls of
           Inl e \<Rightarrow> Inl e
         | Inr c \<Rightarrow>
             (let s1 = s\<lparr>requests :=
                          (requests s)(req := (requests s req)\<lparr>cpus_affine := cpus\<rparr>)\<rparr>
              in case pm_qos_update_target_class k s1 cls req PM_QOS_UPDATE_REQ
                        (prio (requests s1 req)) None of
                   Inl e \<Rightarrow> Inl e
                 | Inr (ret, s') \<Rightarrow> Inr s'))"

text \<open>
  The \<^verbatim>\<open>switch (req->type)\<close> of \<^verbatim>\<open>pm_qos_add_request_trace\<close>: the affinity mask the
  request is added with.
\<close>

definition pm_qos_add_request_affinity :: "kconfig \<Rightarrow> pm_qos_request \<Rightarrow> pm_qos_request" where
  "pm_qos_add_request_affinity k r =
     (case req_type r of
        PM_QOS_REQ_AFFINE_CORES \<Rightarrow>
          (if cpumask_empty k (cpus_affine r)
           then r\<lparr>req_type := PM_QOS_REQ_ALL_CORES, cpus_affine := cpumask_setall k\<rparr>
           else r)
      | PM_QOS_REQ_AFFINE_IRQ \<Rightarrow>
          (if irq_can_set_affinity k (irq r) then
             (let r' = r\<lparr>cpus_affine := irq_affinity k (irq r)\<rparr>
              in if irq_set_affinity_notifier k (irq r) \<noteq> 0
                 then r'\<lparr>req_type := PM_QOS_REQ_ALL_CORES, cpus_affine := cpumask_setall k\<rparr>
                 else r')
           else r\<lparr>req_type := PM_QOS_REQ_ALL_CORES, cpus_affine := cpumask_setall k\<rparr>)
      | PM_QOS_REQ_ALL_CORES \<Rightarrow> r\<lparr>cpus_affine := cpumask_setall k\<rparr>)"

text \<open>
  \<^verbatim>\<open>pm_qos_add_request_trace\<close>; \<^verbatim>\<open>func\<close> and \<^verbatim>\<open>line\<close> only label the request for
  debugfs and are left out.  \<^verbatim>\<open>WARN\<close> prints and goes on.
\<close>

definition pm_qos_add_request_trace ::
  "kconfig \<Rightarrow> pm_qos_state \<Rightarrow> addr \<Rightarrow> int \<Rightarrow> s32 \<Rightarrow> fault + pm_qos_state" where
  "pm_qos_add_request_trace k s req cls val =
     (if req = NULL then Inr s
      else if pm_qos_request_active (requests s) req then Inr s
      else
        (let r = (pm_qos_add_request_affinity k (requests s req))
                   \<lparr>pm_qos_class := cls, work_pending := False\<rparr>;
             s1 = s\<lparr>requests := (requests s)(req := r)\<rparr>
         in case pm_qos_update_target_class k s1 cls req PM_QOS_ADD_REQ val None of
              Inl e \<Rightarrow> Inl e
            | Inr (ret, s') \<Rightarrow> Inr s'))"

definition pm_qos_update_request ::
  "kconfig \<Rightarrow> pm_qos_state \<Rightarrow> addr \<Rightarrow> s32 \<Rightarrow> fault + pm_qos_state" where
  "pm_qos_update_request k s req new_value =
     (if req = NULL then Inr s
      else if \<not> pm_qos_request_active (requests s) req then Inr s
      else pm_qos_update_request_internal k (cancel_pending_work s req) req new_value None)"

text \<open>
  \<^verbatim>\<open>pm_qos_remove_request\<close>.  For an IRQ-affine request it clears the affinity notifier
  of the IRQ and warns when that fails; the IRQ descriptor is not part of this state.
\<close>

definition pm_qos_remove_request ::
  "kconfig \<Rightarrow> pm_qos_state \<Rightarrow> addr \<Rightarrow> fault + pm_qos_state" where
  "pm_qos_remove_request k s req =
     (if req = NULL then Inr s
      else if \<not> pm_qos_request_active (requests s) req then Inr s
      else
        (let s1 = cancel_pending_work s req
         in case pm_qos_update_target_class k s1 (pm_qos_class (requests s1 req)) req
                   PM_QOS_REMOVE_REQ (PM_QOS_DEFAULT_VALUE k) None of
              Inl e \<Rightarrow> Inl e
            | Inr (ret, s') \<Rightarrow> Inr (s'\<lparr>requests := (requests s')(req := zero_request)\<rparr>)))"

subsection \<open>The misc devices\<close>

definition find_pm_qos_object_by_minor :: "pm_qos_state \<Rightarrow> int \<Rightarrow> int" where
  "find_pm_qos_object_by_minor s mnr =
     (case filter (\<lambda>cls. mnr = miscdev_minor (pm_qos_array s ! cls))
             [PM_QOS_CPU_DMA_LATENCY..<PM_QOS_NUM_CLASSES s] of
        [] \<Rightarrow> - 1
      | cls # _ \<Rightarrow> int cls)"

text \<open>\<^verbatim>\<open>struct file\<close>, as far as these handlers use it.\<close>

record struct_file =
  private_data :: addr

text \<open>
  \<^verbatim>\<open>pm_qos_power_open\<close>; \<open>mnr\<close> is \<^verbatim>\<open>iminor(inode)\<close> and \<open>new_req\<close> is the pointer that
  \<^verbatim>\<open>kzalloc\<close> returns when it is called (NULL when the allocation fails).
  \<^verbatim>\<open>pm_qos_add_request\<close> is the macro around \<^verbatim>\<open>pm_qos_add_request_trace\<close>.
\<close>

definition pm_qos_power_open ::
  "kconfig \<Rightarrow> pm_qos_state \<Rightarrow> struct_file \<Rightarrow> int \<Rightarrow> addr \<Rightarrow> fault + (int \<times> pm_qos_state \<times> struct_file)" where
  "pm_qos_power_open k s filp mnr new_req =
     (let cls = find_pm_qos_object_by_minor s mnr
      in if int PM_QOS_CPU_DMA_LATENCY \<le> cls then
           (if new_req = NULL then Inr (- ENOMEM, s, filp)
            else
              (let s1 = s\<lparr>requests := (requests s)(new_req := zero_request),
                          allocated := insert new_req (allocated s)\<rparr>
               in case pm_qos_add_request_trace k s1 new_req cls (PM_QOS_DEFAULT_VALUE k) of
                    Inl e \<Rightarrow> Inl e
                  | Inr s' \<Rightarrow> Inr (0, s', filp\<lparr>private_data := new_req\<rparr>)))
         else Inr (- EPERM, s, filp))"

definition pm_qos_power_release ::
  "kconfig \<Rightarrow> pm_qos_state \<Rightarrow> struct_file \<Rightarrow> fault + (int \<times> pm_qos_state)" where
  "pm_qos_power_release k s filp =
     (let req = private_data filp
      in case pm_qos_remove_request k s req of
           Inl e \<Rightarrow> Inl e
         | Inr s' \<Rightarrow> Inr (0, s'\<lparr>allocated := allocated s' - {req}\<rparr>))"

subsection \<open>Flags\<close>

text \<open>
  \<^verbatim>\<open>struct pm_qos_flags\<close>: the list of the requests' addresses and the effective flags.
  The \<^verbatim>\<open>flags\<close> field of the request at an address is in the store \<open>fm\<close>.
  \<^verbatim>\<open>list_del\<close> unlinks a node and \<^verbatim>\<open>list_add_tail\<close> links it last.
\<close>

record pm_qos_flags =
  flist :: "addr list"
  effective_flags :: s32

definition list_del :: "addr \<Rightarrow> addr list \<Rightarrow> addr list" where
  "list_del node xs = removeAll node xs"

definition list_add_tail :: "addr \<Rightarrow> addr list \<Rightarrow> addr list" where
  "list_add_tail node xs = xs @ [node]"

definition pm_qos_flags_remove_req ::
  "(addr \<Rightarrow> s32) \<Rightarrow> pm_qos_flags \<Rightarrow> addr \<Rightarrow> pm_qos_flags" where
  "pm_qos_flags_remove_req fm pqf req =
     (let xs = list_del req (flist pqf)
      in pqf\<lparr>flist := xs, effective_flags := fold (\<lambda>r val. val OR fm r) xs 0\<rparr>)"

text \<open>The tail shared by \<^verbatim>\<open>PM_QOS_UPDATE_REQ\<close> (which falls through) and \<^verbatim>\<open>PM_QOS_ADD_REQ\<close>.\<close>

definition pm_qos_flags_add_req ::
  "(addr \<Rightarrow> s32) \<Rightarrow> pm_qos_flags \<Rightarrow> addr \<Rightarrow> s32 \<Rightarrow> (addr \<Rightarrow> s32) \<times> pm_qos_flags" where
  "pm_qos_flags_add_req fm pqf req val =
     (fm(req := val),
      pqf\<lparr>flist := list_add_tail req (flist pqf),
          effective_flags := effective_flags pqf OR val\<rparr>)"

definition pm_qos_update_flags ::
  "(addr \<Rightarrow> s32) \<Rightarrow> pm_qos_flags \<Rightarrow> addr \<Rightarrow> pm_qos_req_action \<Rightarrow> s32
     \<Rightarrow> bool \<times> (addr \<Rightarrow> s32) \<times> pm_qos_flags" where
  "pm_qos_update_flags fm pqf req action val =
     (let prev_value = (if flist pqf = [] then 0 else effective_flags pqf);
          (fm', pqf') =
            (case action of
               PM_QOS_REMOVE_REQ \<Rightarrow> (fm, pm_qos_flags_remove_req fm pqf req)
             | PM_QOS_UPDATE_REQ \<Rightarrow>
                 pm_qos_flags_add_req fm (pm_qos_flags_remove_req fm pqf req) req val
             | PM_QOS_ADD_REQ \<Rightarrow> pm_qos_flags_add_req fm pqf req val);
          curr_value = (if flist pqf' = [] then 0 else effective_flags pqf')
      in (prev_value \<noteq> curr_value, fm', pqf'))"

subsection \<open>Specification vocabulary\<close>

text \<open>The value of a request as a signed integer.\<close>

definition node_prio :: "(addr \<Rightarrow> pm_qos_request) \<Rightarrow> addr \<Rightarrow> int" where
  "node_prio m n = sint (prio (m n))"

text \<open>
  A well-formed priority list: no node is linked twice and the values ascend from the
  first node to the last.
\<close>

definition plist_ordered :: "(addr \<Rightarrow> pm_qos_request) \<Rightarrow> addr list \<Rightarrow> bool" where
  "plist_ordered m xs = (distinct xs \<and> sorted (map (node_prio m) xs))"

text \<open>The first node holds the smallest value and the last node the largest.\<close>

definition plist_first_last :: "(addr \<Rightarrow> pm_qos_request) \<Rightarrow> addr list \<Rightarrow> bool" where
  "plist_first_last m xs =
     (xs = [] \<or> (list_all (\<lambda>n. node_prio m (plist_first xs) \<le> node_prio m n \<and>
                     node_prio m n \<le> node_prio m (plist_last xs)) xs))"

text \<open>
  The aggregate target in the words of the specification: the no-constraint value of an
  empty list, else the minimum, the maximum or the sum of the request values, as signed
  integers; the sum is reduced to the 32 bits of \<^verbatim>\<open>int\<close>.
\<close>

definition spec_aggregate :: "(addr \<Rightarrow> pm_qos_request) \<Rightarrow> pm_qos_constraints \<Rightarrow> s32 \<Rightarrow> bool" where
  "spec_aggregate m c v =
     (if plist c = [] then v = no_constraint_value c
      else case ctype c of
          PM_QOS_MIN \<Rightarrow> sint v = Min (node_prio m ` set (plist c))
        | PM_QOS_MAX \<Rightarrow> sint v = Max (node_prio m ` set (plist c))
        | PM_QOS_FORCE_MAX \<Rightarrow> sint v = Max (node_prio m ` set (plist c))
        | PM_QOS_SUM \<Rightarrow> v = word_of_int (sum_list (map (node_prio m) (plist c)))
        | PM_QOS_UNITIALIZED \<Rightarrow> False)"

text \<open>The requests of a list whose affinity mask contains a CPU.\<close>

definition covering :: "(addr \<Rightarrow> pm_qos_request) \<Rightarrow> addr list \<Rightarrow> nat \<Rightarrow> addr list" where
  "covering m xs cpu = filter (\<lambda>r. cpu \<in> cpus_affine (m r)) xs"

subsection \<open>Concrete inputs\<close>

text \<open>
  A two-CPU configuration, two requests of class 1 at the addresses 1 and 2 (30 on CPU 0,
  50 on both CPUs), and constraints objects with default and no-constraint value 10.
\<close>

definition ex_config :: kconfig where
  "ex_config =
     \<lparr>PM_QOS_DEFAULT_VALUE = - 1, NR_CPUS = 2, cpu_possible_mask = {0, 1},
      irq_can_set_affinity = (\<lambda>i. True), irq_affinity = (\<lambda>i. {0}),
      irq_set_affinity_notifier = (\<lambda>i. 0)\<rparr>"

definition ex_request :: "s32 \<Rightarrow> cpumask \<Rightarrow> pm_qos_request" where
  "ex_request v cpus =
     \<lparr>req_type = PM_QOS_REQ_AFFINE_CORES, cpus_affine = cpus, irq = 0, prio = v,
      pm_qos_class = 1, work_pending = False\<rparr>"

definition ex_requests :: "addr \<Rightarrow> pm_qos_request" where
  "ex_requests = (\<lambda>a. zero_request)(1 := ex_request 30 {0}, 2 := ex_request 50 {0, 1})"

definition ex_constraints ::
  "pm_qos_type \<Rightarrow> addr list \<Rightarrow> s32 \<Rightarrow> s32 list \<Rightarrow> pm_qos_constraints" where
  "ex_constraints t xs v per_cpu =
     \<lparr>plist = xs, target_value = v, target_per_cpu = per_cpu, default_value = 10,
      no_constraint_value = 10, ctype = t, notifiers = Some 7\<rparr>"

text \<open>A state whose class 1 has the given constraints object.\<close>

definition ex_state :: "pm_qos_constraints \<Rightarrow> pm_qos_state" where
  "ex_state c =
     \<lparr>requests = ex_requests,
      pm_qos_array =
        [\<lparr>constraints = None, miscdev_minor = 0, obj_name = ''null''\<rparr>,
         \<lparr>constraints = Some c, miscdev_minor = 61, obj_name = ''cpu_dma_latency''\<rparr>],
      notified = [], allocated = {}\<rparr>"

text \<open>The bitwise OR of the flags of the requests on a list.\<close>

definition flags_or :: "(addr \<Rightarrow> s32) \<Rightarrow> addr list \<Rightarrow> s32" where
  "flags_or fm xs = fold (\<lambda>r val. val OR fm r) xs 0"

text \<open>The effective value that \<^verbatim>\<open>pm_qos_update_flags\<close> compares: 0 for an empty set.\<close>

definition flags_value :: "pm_qos_flags \<Rightarrow> s32" where
  "flags_value pqf = (if flist pqf = [] then 0 else effective_flags pqf)"

text \<open>
  A state with two classes: request 1 is linked on class 1, and request 2, which follows
  the affinity of IRQ 5, on class 2.
\<close>

definition ex_state2 :: pm_qos_state where
  "ex_state2 =
     \<lparr>requests = ex_requests
        (2 := (ex_request 50 {0, 1})
                \<lparr>req_type := PM_QOS_REQ_AFFINE_IRQ, irq := 5, pm_qos_class := 2\<rparr>),
      pm_qos_array =
        [\<lparr>constraints = None, miscdev_minor = 0, obj_name = ''null''\<rparr>,
         \<lparr>constraints = Some (ex_constraints PM_QOS_MIN [1] 30 [10, 10]),
          miscdev_minor = 61, obj_name = ''cpu_dma_latency''\<rparr>,
         \<lparr>constraints = Some (ex_constraints PM_QOS_MAX [2] 50 [50, 50]),
          miscdev_minor = 62, obj_name = ''bus_throughput''\<rparr>],
      notified = [], allocated = {}\<rparr>"

text \<open>
  The per-CPU target that the loop computes: the minimum (\<^verbatim>\<open>PM_QOS_MIN\<close>) or the
  maximum of the default value and the values of the requests covering the CPU.
\<close>

definition spec_per_cpu :: "(addr \<Rightarrow> pm_qos_request) \<Rightarrow> pm_qos_constraints \<Rightarrow> nat \<Rightarrow> int" where
  "spec_per_cpu m c cpu =
     (if ctype c = PM_QOS_MIN
      then Min (insert (sint (default_value c)) (node_prio m ` set (covering m (plist c) cpu)))
      else Max (insert (sint (default_value c)) (node_prio m ` set (covering m (plist c) cpu))))"

text \<open>
  What \<^verbatim>\<open>pm_qos_irq_notify\<close> and \<^verbatim>\<open>pm_qos_irq_release\<close> leave behind for a request of
  class \<open>cls\<close> (constraints \<open>c\<close> before the call): the mask and the value of the request,
  the request linked on the class, and per-CPU targets that are the ones computed from
  the masks now in the store.
\<close>

definition irq_update_post ::
  "kconfig \<Rightarrow> pm_qos_constraints \<Rightarrow> int \<Rightarrow> addr \<Rightarrow> cpumask \<Rightarrow> s32 \<Rightarrow> pm_qos_state \<Rightarrow> bool" where
  "irq_update_post k c cls req cpus v s' =
     (cpus_affine (requests s' req) = cpus \<and> prio (requests s' req) = v \<and>
      (case pm_qos_class_constraints s' cls of
         Inl e \<Rightarrow> False
       | Inr c' \<Rightarrow>
           req \<in> set (plist c') \<and>
           pm_qos_set_value_for_cpus k (requests s') c' = Inr c' \<and>
           ((ctype c = PM_QOS_MIN \<or> ctype c = PM_QOS_MAX) \<and>
            length (target_per_cpu c) = NR_CPUS k \<longrightarrow>
              list_all (\<lambda>cpu. cpu \<in> cpu_possible_mask k \<longrightarrow>
                          sint (target_per_cpu c' ! cpu) = spec_per_cpu (requests s') c' cpu)
                [0..<NR_CPUS k])))"

text \<open>
  The types on which \<^verbatim>\<open>pm_qos_update_target\<close> cannot fault: the per-CPU loop handles
  them, and a \<^verbatim>\<open>PM_QOS_FORCE_MAX\<close> object has a notifier chain.
\<close>

definition update_cannot_fault :: "pm_qos_constraints \<Rightarrow> bool" where
  "update_cannot_fault c =
     (ctype c = PM_QOS_MIN \<or> ctype c = PM_QOS_MAX \<or>
      (ctype c = PM_QOS_FORCE_MAX \<and> notifiers c \<noteq> None))"

text \<open>
  After \<^verbatim>\<open>pm_qos_power_open\<close> on class \<open>cls\<close> (constraints \<open>c\<close> before the call): the
  file holds the new request, which is allocated, belongs to the class with the default
  value of the class, and is linked on its list; the target is the aggregate of that list.
\<close>

definition open_post ::
  "pm_qos_constraints \<Rightarrow> int \<Rightarrow> addr \<Rightarrow> pm_qos_state \<Rightarrow> struct_file \<Rightarrow> bool" where
  "open_post c cls new_req s1 filp1 =
     (private_data filp1 = new_req \<and> new_req \<in> allocated s1 \<and>
      pm_qos_class (requests s1 new_req) = cls \<and>
      prio (requests s1 new_req) = default_value c \<and>
      (case pm_qos_class_constraints s1 cls of
         Inl e \<Rightarrow> False
       | Inr c1 \<Rightarrow>
           set (plist c1) = insert new_req (set (plist c)) \<and>
           plist_ordered (requests s1) (plist c1) \<and>
           spec_aggregate (requests s1) c1 (target_value c1)))"

text \<open>
  After \<^verbatim>\<open>pm_qos_power_release\<close>: the request is freed and zeroed, the list of the class
  is the list without it, and the target is the aggregate of that list.
\<close>

definition release_post ::
  "pm_qos_constraints \<Rightarrow> int \<Rightarrow> addr \<Rightarrow> pm_qos_state \<Rightarrow> bool" where
  "release_post c cls new_req s2 =
     (new_req \<notin> allocated s2 \<and> requests s2 new_req = zero_request \<and>
      (case pm_qos_class_constraints s2 cls of
         Inl e \<Rightarrow> False
       | Inr c2 \<Rightarrow>
           plist c2 = plist c \<and>
           spec_aggregate (requests s2) c2 (target_value c2)))"

section \<open>Properties\<close>

text \<open>The definitions that evaluate the model on the concrete inputs.\<close>

lemmas ex_eval =
  pm_qos_update_target_class_def pm_qos_class_constraints_def PM_QOS_NUM_CLASSES_def
  pm_qos_update_target_def pm_qos_get_value_def pm_qos_list_action_def
  pm_qos_set_value_for_cpus_def pm_qos_set_value_def plist_head_empty_def plist_first_def
  plist_last_def plist_del_def plist_node_init_def for_each_cpu_def cpumask_setall_def
  ex_constraints_def ex_requests_def ex_request_def ex_config_def zero_request_def
  word_sless_alt upt_conv_Cons Let_def

subsection \<open>Priority lists\<close>

lemma set_plist_add: "set (plist_add m node xs) = insert node (set xs)"
  by (induction xs) auto

lemma distinct_plist_add: "distinct xs \<Longrightarrow> node \<notin> set xs \<Longrightarrow> distinct (plist_add m node xs)"
  by (induction xs) (auto simp: set_plist_add)

lemma sorted_plist_add:
  "sorted (map (node_prio m) xs) \<Longrightarrow> sorted (map (node_prio m) (plist_add m node xs))"
  by (induction xs) (auto simp: set_plist_add node_prio_def word_sless_alt)

lemma sorted_plist_del:
  "sorted (map (node_prio m) xs) \<Longrightarrow> sorted (map (node_prio m) (plist_del node xs))"
  by (induction xs) (auto simp: plist_del_def)

lemma map_node_prio_init:
  "node \<notin> set xs \<Longrightarrow> map (node_prio (plist_node_init m node p)) xs = map (node_prio m) xs"
  by (induction xs) (auto simp: plist_node_init_def node_prio_def)

lemma sorted_hd_Min:
  "sorted (map f xs) \<Longrightarrow> xs \<noteq> [] \<Longrightarrow> (f (hd xs) :: int) = Min (f ` set xs)"
  by (cases xs) (auto intro!: Min_eqI[symmetric])

lemma sorted_last_Max:
  "sorted (map f xs) \<Longrightarrow> xs \<noteq> [] \<Longrightarrow> (f (last xs) :: int) = Max (f ` set xs)"
proof (induction xs)
  case Nil then show ?case by simp
next
  case (Cons x xs)
  show ?case
  proof (cases "xs = []")
    case True then show ?thesis by simp
  next
    case False
    with Cons have "f (last xs) = Max (f ` set xs)" by simp
    moreover have "f x \<le> f (last xs)" using Cons.prems False by simp
    ultimately show ?thesis using False by (simp add: max_def)
  qed
qed

lemma fold_total_value:
  "fold (\<lambda>node total_value. total_value + prio (m node)) xs a = a + sum_list (map (\<lambda>n. prio (m n)) xs)"
  by (induction xs arbitrary: a) (auto simp: add.assoc)

lemma sum_list_prio_int:
  "sum_list (map (\<lambda>n. prio (m n)) xs) = word_of_int (sum_list (map (node_prio m) xs))"
  by (induction xs) (simp_all add: node_prio_def)

subsection \<open>The per-CPU loops\<close>

lemma set_for_each_cpu: "set (for_each_cpu k cpus) = {cpu. cpu \<in> cpus \<and> cpu < NR_CPUS k}"
  by (auto simp: for_each_cpu_def)

lemma qos_val_cpus_MIN:
  "\<exists>qv'. qos_val_cpus PM_QOS_MIN p cpus qv = Inr qv' \<and> length qv' = length qv \<and>
     (\<forall>i < length qv. sint (qv' ! i) = (if i \<in> set cpus then min (sint p) (sint (qv ! i)) else sint (qv ! i)))"
proof (induction cpus arbitrary: qv)
  case Nil
  then show ?case by simp
next
  case (Cons cpu cpus)
  let ?qv1 = "if p <s qv ! cpu then qv[cpu := p] else qv"
  from Cons.IH[of ?qv1] obtain qv' where
    r: "qos_val_cpus PM_QOS_MIN p cpus ?qv1 = Inr qv'" and l: "length qv' = length ?qv1"
    and v: "\<forall>i < length ?qv1. sint (qv' ! i) = (if i \<in> set cpus then min (sint p) (sint (?qv1 ! i)) else sint (?qv1 ! i))"
    by blast
  have l1: "length ?qv1 = length qv" by simp
  have "\<forall>i < length qv. sint (qv' ! i) = (if i \<in> set (cpu # cpus) then min (sint p) (sint (qv ! i)) else sint (qv ! i))"
  proof (intro allI impI)
    fix i assume i: "i < length qv"
    then have e: "sint (qv' ! i) = (if i \<in> set cpus then min (sint p) (sint (?qv1 ! i)) else sint (?qv1 ! i))"
      using v l1 by simp
    have q: "sint (?qv1 ! i) = (if i = cpu then min (sint p) (sint (qv ! i)) else sint (qv ! i))"
      using i by (auto simp: word_sless_alt nth_list_update)
    show "sint (qv' ! i) = (if i \<in> set (cpu # cpus) then min (sint p) (sint (qv ! i)) else sint (qv ! i))"
      unfolding e q by auto
  qed
  with r l l1 show ?case by simp
qed

lemma qos_val_cpus_MAX:
  "\<exists>qv'. qos_val_cpus PM_QOS_MAX p cpus qv = Inr qv' \<and> length qv' = length qv \<and>
     (\<forall>i < length qv. sint (qv' ! i) = (if i \<in> set cpus then max (sint p) (sint (qv ! i)) else sint (qv ! i)))"
proof (induction cpus arbitrary: qv)
  case Nil
  then show ?case by simp
next
  case (Cons cpu cpus)
  let ?qv1 = "if qv ! cpu <s p then qv[cpu := p] else qv"
  from Cons.IH[of ?qv1] obtain qv' where
    r: "qos_val_cpus PM_QOS_MAX p cpus ?qv1 = Inr qv'" and l: "length qv' = length ?qv1"
    and v: "\<forall>i < length ?qv1. sint (qv' ! i) = (if i \<in> set cpus then max (sint p) (sint (?qv1 ! i)) else sint (?qv1 ! i))"
    by blast
  have l1: "length ?qv1 = length qv" by simp
  have "\<forall>i < length qv. sint (qv' ! i) = (if i \<in> set (cpu # cpus) then max (sint p) (sint (qv ! i)) else sint (qv ! i))"
  proof (intro allI impI)
    fix i assume i: "i < length qv"
    then have e: "sint (qv' ! i) = (if i \<in> set cpus then max (sint p) (sint (?qv1 ! i)) else sint (?qv1 ! i))"
      using v l1 by simp
    have q: "sint (?qv1 ! i) = (if i = cpu then max (sint p) (sint (qv ! i)) else sint (qv ! i))"
      using i by (auto simp: word_sless_alt nth_list_update)
    show "sint (qv' ! i) = (if i \<in> set (cpu # cpus) then max (sint p) (sint (qv ! i)) else sint (qv ! i))"
      unfolding e q by auto
  qed
  with r l l1 show ?case by simp
qed

lemma Min_insert_min:
  "finite S \<Longrightarrow> Min (insert (min a (b::int)) S) = Min (insert b (insert a S))"
  by (cases "S = {}") (simp_all add: min.assoc min.commute min.left_commute)

lemma Max_insert_max:
  "finite S \<Longrightarrow> Max (insert (max a (b::int)) S) = Max (insert b (insert a S))"
  by (cases "S = {}") (simp_all add: max.assoc max.commute max.left_commute)

lemma qos_val_reqs_MIN:
  "\<exists>qv'. qos_val_reqs k m PM_QOS_MIN reqs qv = Inr qv' \<and> length qv' = length qv \<and>
     (\<forall>i < length qv. i < NR_CPUS k \<longrightarrow>
        sint (qv' ! i) = Min (insert (sint (qv ! i)) (node_prio m ` set (covering m reqs i))))"
proof (induction reqs arbitrary: qv)
  case Nil
  then show ?case by (simp add: covering_def)
next
  case (Cons r reqs)
  obtain qv1 where
    a: "qos_val_cpus PM_QOS_MIN (prio (m r)) (for_each_cpu k (cpus_affine (m r))) qv = Inr qv1"
    and la: "length qv1 = length qv"
    and va: "\<forall>i < length qv. sint (qv1 ! i) =
       (if i \<in> set (for_each_cpu k (cpus_affine (m r))) then min (sint (prio (m r))) (sint (qv ! i)) else sint (qv ! i))"
    using qos_val_cpus_MIN by blast
  from Cons.IH[of qv1] obtain qv' where
    b: "qos_val_reqs k m PM_QOS_MIN reqs qv1 = Inr qv'" and lb: "length qv' = length qv1"
    and vb: "\<forall>i < length qv1. i < NR_CPUS k \<longrightarrow>
        sint (qv' ! i) = Min (insert (sint (qv1 ! i)) (node_prio m ` set (covering m reqs i)))"
    by blast
  have "\<forall>i < length qv. i < NR_CPUS k \<longrightarrow>
        sint (qv' ! i) = Min (insert (sint (qv ! i)) (node_prio m ` set (covering m (r # reqs) i)))"
  proof (intro allI impI)
    fix i assume i: "i < length qv" "i < NR_CPUS k"
    have fin: "finite (node_prio m ` set (covering m reqs i))" by simp
    have e: "sint (qv' ! i) = Min (insert (sint (qv1 ! i)) (node_prio m ` set (covering m reqs i)))"
      using vb i la by simp
    show "sint (qv' ! i) = Min (insert (sint (qv ! i)) (node_prio m ` set (covering m (r # reqs) i)))"
    proof (cases "i \<in> cpus_affine (m r)")
      case True
      then have "sint (qv1 ! i) = min (sint (prio (m r))) (sint (qv ! i))"
        using va i by (simp add: set_for_each_cpu)
      moreover have "covering m (r # reqs) i = r # covering m reqs i"
        using True by (simp add: covering_def)
      ultimately show ?thesis unfolding e
        using Min_insert_min[OF fin, of "sint (prio (m r))" "sint (qv ! i)"]
        by (simp add: node_prio_def)
    next
      case False
      then have "sint (qv1 ! i) = sint (qv ! i)"
        using va i by (simp add: set_for_each_cpu)
      moreover have "covering m (r # reqs) i = covering m reqs i"
        using False by (simp add: covering_def)
      ultimately show ?thesis unfolding e by simp
    qed
  qed
  with a b la lb show ?case by simp
qed

lemma qos_val_reqs_MAX:
  "\<exists>qv'. qos_val_reqs k m PM_QOS_MAX reqs qv = Inr qv' \<and> length qv' = length qv \<and>
     (\<forall>i < length qv. i < NR_CPUS k \<longrightarrow>
        sint (qv' ! i) = Max (insert (sint (qv ! i)) (node_prio m ` set (covering m reqs i))))"
proof (induction reqs arbitrary: qv)
  case Nil
  then show ?case by (simp add: covering_def)
next
  case (Cons r reqs)
  obtain qv1 where
    a: "qos_val_cpus PM_QOS_MAX (prio (m r)) (for_each_cpu k (cpus_affine (m r))) qv = Inr qv1"
    and la: "length qv1 = length qv"
    and va: "\<forall>i < length qv. sint (qv1 ! i) =
       (if i \<in> set (for_each_cpu k (cpus_affine (m r))) then max (sint (prio (m r))) (sint (qv ! i)) else sint (qv ! i))"
    using qos_val_cpus_MAX by blast
  from Cons.IH[of qv1] obtain qv' where
    b: "qos_val_reqs k m PM_QOS_MAX reqs qv1 = Inr qv'" and lb: "length qv' = length qv1"
    and vb: "\<forall>i < length qv1. i < NR_CPUS k \<longrightarrow>
        sint (qv' ! i) = Max (insert (sint (qv1 ! i)) (node_prio m ` set (covering m reqs i)))"
    by blast
  have "\<forall>i < length qv. i < NR_CPUS k \<longrightarrow>
        sint (qv' ! i) = Max (insert (sint (qv ! i)) (node_prio m ` set (covering m (r # reqs) i)))"
  proof (intro allI impI)
    fix i assume i: "i < length qv" "i < NR_CPUS k"
    have fin: "finite (node_prio m ` set (covering m reqs i))" by simp
    have e: "sint (qv' ! i) = Max (insert (sint (qv1 ! i)) (node_prio m ` set (covering m reqs i)))"
      using vb i la by simp
    show "sint (qv' ! i) = Max (insert (sint (qv ! i)) (node_prio m ` set (covering m (r # reqs) i)))"
    proof (cases "i \<in> cpus_affine (m r)")
      case True
      then have "sint (qv1 ! i) = max (sint (prio (m r))) (sint (qv ! i))"
        using va i by (simp add: set_for_each_cpu)
      moreover have "covering m (r # reqs) i = r # covering m reqs i"
        using True by (simp add: covering_def)
      ultimately show ?thesis unfolding e
        using Max_insert_max[OF fin, of "sint (prio (m r))" "sint (qv ! i)"]
        by (simp add: node_prio_def)
    next
      case False
      then have "sint (qv1 ! i) = sint (qv ! i)"
        using va i by (simp add: set_for_each_cpu)
      moreover have "covering m (r # reqs) i = covering m reqs i"
        using False by (simp add: covering_def)
      ultimately show ?thesis unfolding e by simp
    qed
  qed
  with a b la lb show ?case by simp
qed

lemma qos_val_cpus_FORCE_MAX:
  "\<exists>qv'. qos_val_cpus PM_QOS_FORCE_MAX p cpus qv = Inr qv'"
  by (induction cpus arbitrary: qv) auto

lemma qos_val_reqs_FORCE_MAX:
  "\<exists>qv'. qos_val_reqs k m PM_QOS_FORCE_MAX reqs qv = Inr qv'"
proof (induction reqs arbitrary: qv)
  case Nil
  then show ?case by simp
next
  case (Cons r reqs)
  obtain qv1 where
    "qos_val_cpus PM_QOS_FORCE_MAX (prio (m r)) (for_each_cpu k (cpus_affine (m r))) qv = Inr qv1"
    using qos_val_cpus_FORCE_MAX by blast
  with Cons.IH[of qv1] show ?case by simp
qed

lemma fold_copy_nth:
  "length q = length t \<Longrightarrow> i < length t \<Longrightarrow>
   fold (\<lambda>cpu tpc. tpc[cpu := q ! cpu]) cpus t ! i = (if i \<in> set cpus then q ! i else t ! i)"
proof (induction cpus arbitrary: t)
  case Nil
  then show ?case by simp
next
  case (Cons c cpus)
  from Cons.IH[of "t[c := q ! c]"] Cons.prems show ?case
    by (auto simp: nth_list_update)
qed

lemma fold_copy_length:
  "length (fold (\<lambda>cpu tpc. tpc[cpu := q ! cpu]) cpus t) = length t"
  by (induction cpus arbitrary: t) auto

lemma set_value_for_cpus_fields:
  "pm_qos_set_value_for_cpus k m c = Inr c' \<Longrightarrow>
     plist c' = plist c \<and> target_value c' = target_value c \<and> default_value c' = default_value c
     \<and> no_constraint_value c' = no_constraint_value c \<and> ctype c' = ctype c \<and> notifiers c' = notifiers c
     \<and> length (target_per_cpu c') = length (target_per_cpu c)"
  by (auto simp: pm_qos_set_value_for_cpus_def fold_copy_length split: sum.splits)

lemma get_value_cong:
  "plist c' = plist c \<Longrightarrow> ctype c' = ctype c \<Longrightarrow> no_constraint_value c' = no_constraint_value c
   \<Longrightarrow> pm_qos_get_value m c' = pm_qos_get_value m c"
  by (cases "ctype c") (simp_all add: pm_qos_get_value_def)

lemma update_target_InrD:
  assumes "pm_qos_update_target k m c req action val p = Inr (ret, m', c', calls)"
  shows "\<exists>prev curr.
     pm_qos_get_value m c = Inr prev \<and>
     (m', plist c') = pm_qos_list_action m (plist c) req action
        (if val = PM_QOS_DEFAULT_VALUE k then default_value c else val) \<and>
     pm_qos_get_value m' c' = Inr curr \<and> target_value c' = curr \<and>
     pm_qos_set_value_for_cpus k m' (c\<lparr>plist := plist c', target_value := curr\<rparr>) = Inr c' \<and>
     ctype c' = ctype c \<and> notifiers c' = notifiers c \<and> default_value c' = default_value c \<and>
     no_constraint_value c' = no_constraint_value c \<and>
     (if ctype c = PM_QOS_FORCE_MAX
      then ret = 1 \<and> (\<exists>nh. notifiers c = Some nh \<and>
             calls = [(nh, curr, case p of None \<Rightarrow> REQ_CLASS req | Some x \<Rightarrow> PARAM x)])
      else ret = (if prev \<noteq> curr then 1 else 0) \<and>
           calls = (if prev \<noteq> curr then
                      (case notifiers c of None \<Rightarrow> []
                       | Some nh \<Rightarrow> [(nh, curr, case p of None \<Rightarrow> REQ_CLASS req | Some x \<Rightarrow> PARAM x)])
                    else []))"
proof -
  obtain prev where prev: "pm_qos_get_value m c = Inr prev"
    using assms by (auto simp: pm_qos_update_target_def split: sum.splits)
  let ?nv = "if val = PM_QOS_DEFAULT_VALUE k then default_value c else val"
  obtain m1 xs1 where la: "pm_qos_list_action m (plist c) req action ?nv = (m1, xs1)"
    by (cases "pm_qos_list_action m (plist c) req action ?nv") auto
  obtain curr where curr: "pm_qos_get_value m1 (c\<lparr>plist := xs1\<rparr>) = Inr curr"
    using assms prev la by (auto simp: pm_qos_update_target_def Let_def split: sum.splits)
  obtain c2 where c2: "pm_qos_set_value_for_cpus k m1 (pm_qos_set_value (c\<lparr>plist := xs1\<rparr>) curr) = Inr c2"
    using assms prev la curr by (auto simp: pm_qos_update_target_def Let_def split: sum.splits)
  note f = set_value_for_cpus_fields[OF c2]
  have r: "(if ctype c2 = PM_QOS_FORCE_MAX then
              (case notifiers c2 of None \<Rightarrow> Inl OOPS
               | Some nh \<Rightarrow> Inr (1, m1, c2, [(nh, curr, case p of None \<Rightarrow> REQ_CLASS req | Some x \<Rightarrow> PARAM x)]))
            else if prev \<noteq> curr then
              Inr (1, m1, c2, (case notifiers c2 of None \<Rightarrow> []
                    | Some nh \<Rightarrow> [(nh, curr, case p of None \<Rightarrow> REQ_CLASS req | Some x \<Rightarrow> PARAM x)]))
            else Inr (0, m1, c2, [])) = Inr (ret, m', c', calls)"
    using assms prev la curr c2 by (simp add: pm_qos_update_target_def Let_def)
  then have eq: "m' = m1" "c' = c2"
    by (auto split: if_splits option.splits)
  have g: "pm_qos_get_value m' c' = Inr curr"
    using curr f eq get_value_cong[of c2 "c\<lparr>plist := xs1\<rparr>" m1] by (simp add: pm_qos_set_value_def)
  show ?thesis
    using prev la g f eq c2 r
    by (auto simp: pm_qos_set_value_def split: if_splits option.splits)
qed

subsection \<open>Aggregation and completion\<close>

lemma get_value_spec:
  assumes "plist_ordered m (plist c)" and "plist c = [] \<or> ctype c \<noteq> PM_QOS_UNITIALIZED"
  shows "\<exists>v. pm_qos_get_value m c = Inr v \<and> spec_aggregate m c v"
proof (cases "plist c = []")
  case True
  then show ?thesis
    by (simp add: pm_qos_get_value_def plist_head_empty_def spec_aggregate_def)
next
  case False
  have s: "sorted (map (node_prio m) (plist c))"
    using assms(1) by (simp add: plist_ordered_def)
  note mn = sorted_hd_Min[OF s False] and mx = sorted_last_Max[OF s False]
  show ?thesis
    using False assms(2) mn mx
    by (cases "ctype c")
       (simp_all add: pm_qos_get_value_def plist_head_empty_def spec_aggregate_def
          plist_first_def plist_last_def node_prio_def fold_total_value sum_list_prio_int)
qed

lemma list_action_ordered:
  assumes "plist_ordered m xs" and "action = PM_QOS_ADD_REQ \<longrightarrow> node \<notin> set xs"
    and "pm_qos_list_action m xs node action v = (m', xs')"
  shows "plist_ordered m' xs'"
proof (cases action)
  case PM_QOS_ADD_REQ
  then have n: "node \<notin> set xs" using assms(2) by simp
  have e: "m' = plist_node_init m node v" "xs' = plist_add m' node xs"
    using assms(3) PM_QOS_ADD_REQ by (auto simp: pm_qos_list_action_def Let_def)
  have "sorted (map (node_prio m') xs)"
    using assms(1) n by (simp add: e(1) map_node_prio_init plist_ordered_def)
  then show ?thesis
    using assms(1) n unfolding e(2) plist_ordered_def
    by (simp add: sorted_plist_add distinct_plist_add)
next
  case PM_QOS_UPDATE_REQ
  let ?ys = "plist_del node xs"
  have n: "node \<notin> set ?ys" by (simp add: plist_del_def)
  have d: "distinct ?ys" using assms(1) by (simp add: plist_del_def plist_ordered_def distinct_removeAll)
  have e: "m' = plist_node_init m node v" "xs' = plist_add m' node ?ys"
    using assms(3) PM_QOS_UPDATE_REQ by (auto simp: pm_qos_list_action_def Let_def)
  have "sorted (map (node_prio m) ?ys)"
    using assms(1) by (simp add: sorted_plist_del plist_ordered_def)
  then have "sorted (map (node_prio m') ?ys)"
    using n by (simp add: e(1) map_node_prio_init)
  then show ?thesis
    using d n unfolding e(2) plist_ordered_def
    by (simp add: sorted_plist_add distinct_plist_add)
next
  case PM_QOS_REMOVE_REQ
  then have e: "m' = m" "xs' = plist_del node xs"
    using assms(3) by (auto simp: pm_qos_list_action_def)
  show ?thesis
    using assms(1) unfolding e plist_ordered_def
    by (simp add: sorted_plist_del) (simp add: plist_del_def distinct_removeAll)
qed

lemma get_value_total:
  "ctype c \<noteq> PM_QOS_UNITIALIZED \<Longrightarrow> \<exists>v. pm_qos_get_value m c = Inr v"
  by (cases "ctype c") (simp_all add: pm_qos_get_value_def)

lemma set_value_for_cpus_total:
  assumes "ctype c = PM_QOS_MIN \<or> ctype c = PM_QOS_MAX \<or> ctype c = PM_QOS_FORCE_MAX"
  shows "\<exists>c'. pm_qos_set_value_for_cpus k m c = Inr c'"
proof -
  have "\<exists>qv. qos_val_reqs k m (ctype c) (plist c) (replicate (NR_CPUS k) (default_value c)) = Inr qv"
    using assms qos_val_reqs_MIN qos_val_reqs_MAX qos_val_reqs_FORCE_MAX
    by metis
  then show ?thesis
    by (auto simp: pm_qos_set_value_for_cpus_def)
qed

lemma update_target_completes:
  assumes "ctype c = PM_QOS_MIN \<or> ctype c = PM_QOS_MAX \<or>
           (ctype c = PM_QOS_FORCE_MAX \<and> notifiers c \<noteq> None)"
  shows "\<exists>ret m' c' calls. pm_qos_update_target k m c req action val p = Inr (ret, m', c', calls)"
proof -
  have t: "ctype c \<noteq> PM_QOS_UNITIALIZED" using assms by auto
  obtain prev where prev: "pm_qos_get_value m c = Inr prev"
    using get_value_total[OF t] by blast
  let ?nv = "if val = PM_QOS_DEFAULT_VALUE k then default_value c else val"
  obtain m1 xs1 where la: "pm_qos_list_action m (plist c) req action ?nv = (m1, xs1)"
    by (cases "pm_qos_list_action m (plist c) req action ?nv") auto
  obtain curr where curr: "pm_qos_get_value m1 (c\<lparr>plist := xs1\<rparr>) = Inr curr"
    using get_value_total[of "c\<lparr>plist := xs1\<rparr>" m1] t by auto
  have "ctype (pm_qos_set_value (c\<lparr>plist := xs1\<rparr>) curr) = ctype c"
    by (simp add: pm_qos_set_value_def)
  then obtain c2 where c2: "pm_qos_set_value_for_cpus k m1 (pm_qos_set_value (c\<lparr>plist := xs1\<rparr>) curr) = Inr c2"
    using set_value_for_cpus_total[of "pm_qos_set_value (c\<lparr>plist := xs1\<rparr>) curr" k m1] assms by auto
  note f = set_value_for_cpus_fields[OF c2]
  have "ctype c2 = ctype c" "notifiers c2 = notifiers c"
    using f by (simp_all add: pm_qos_set_value_def)
  then show ?thesis
    using assms prev la curr c2
    by (auto simp: pm_qos_update_target_def Let_def split: option.splits)
qed

lemma update_target_class_InrD:
  assumes "pm_qos_update_target_class k s cls req action val p = Inr (ret, s')"
  shows "\<exists>c c' calls.
     pm_qos_class_constraints s cls = Inr c \<and>
     pm_qos_update_target k (requests s) c req action val p = Inr (ret, requests s', c', calls) \<and>
     pm_qos_class_constraints s' cls = Inr c' \<and>
     pm_qos_array s' = (pm_qos_array s)[nat cls := (pm_qos_array s ! nat cls)\<lparr>constraints := Some c'\<rparr>] \<and>
     notified s' = notified s @ calls \<and> allocated s' = allocated s"
  using assms
  by (auto simp: pm_qos_update_target_class_def pm_qos_class_constraints_def PM_QOS_NUM_CLASSES_def
      split: sum.splits if_splits option.splits)

lemma first_last_of_sorted:
  assumes "sorted (map (node_prio m) xs)"
  shows "plist_first_last m xs"
proof (cases "xs = []")
  case True
  then show ?thesis by (simp add: plist_first_last_def)
next
  case False
  note mn = sorted_hd_Min[OF assms False] and mx = sorted_last_Max[OF assms False]
  show ?thesis
    using False unfolding plist_first_last_def plist_first_def plist_last_def mn mx
    by (simp add: list_all_iff)
qed

subsection \<open>Ordering and aggregate target\<close>

text \<open>
  C4: the request list stays ordered by value across every add, update and remove action
  of \<^verbatim>\<open>pm_qos_update_target\<close> (an update unlinks the node, sets its new value and links
  it again), so the first node holds the smallest value and the last node the largest.
  The list is well-formed before the call, and a request to add is not linked yet.
\<close>

theorem plist_remains_ordered:
  assumes "plist_ordered m (plist c)"
      and "action = PM_QOS_ADD_REQ \<longrightarrow> req \<notin> set (plist c)"
  shows "(case pm_qos_list_action m (plist c) req action v of
            (m', xs') \<Rightarrow> plist_ordered m' xs' \<and> plist_first_last m' xs') \<and>
         (case pm_qos_update_target k m c req action val p of
            Inl e \<Rightarrow> True
          | Inr (ret, m', c', calls) \<Rightarrow>
              plist_ordered m' (plist c') \<and> plist_first_last m' (plist c'))"
proof -
  have a: "plist_ordered m' xs' \<and> plist_first_last m' xs'"
    if "pm_qos_list_action m (plist c) req action w = (m', xs')" for w m' xs'
  proof -
    have "plist_ordered m' xs'" using list_action_ordered[OF assms that] .
    then show ?thesis by (simp add: first_last_of_sorted plist_ordered_def)
  qed
  have b: "plist_ordered m' (plist c') \<and> plist_first_last m' (plist c')"
    if "pm_qos_update_target k m c req action val p = Inr (ret, m', c', calls)" for ret m' c' calls
    using update_target_InrD[OF that] a by metis
  show ?thesis
    using a b by (auto split: sum.splits prod.splits)
qed

lemma ex_ordered: "plist_ordered ex_requests [1, 2]"
  by (simp add: plist_ordered_def node_prio_def ex_requests_def ex_request_def)

theorem plist_remains_ordered_witness:
  "pm_qos_list_action ex_requests [1, 2] 1 PM_QOS_UPDATE_REQ 70
     = (ex_requests(1 := ex_request 70 {0}), [2, 1]) \<and>
   plist_ordered (ex_requests(1 := ex_request 70 {0})) [2, 1] \<and>
   plist_first_last (ex_requests(1 := ex_request 70 {0})) [2, 1]"
proof -
  have h1: "plist_ordered ex_requests (plist (ex_constraints PM_QOS_MIN [1, 2] 30 [10, 10]))"
    using ex_ordered by (simp add: ex_constraints_def)
  have h2: "PM_QOS_UPDATE_REQ = PM_QOS_ADD_REQ \<longrightarrow>
              1 \<notin> set (plist (ex_constraints PM_QOS_MIN [1, 2] 30 [10, 10]))"
    by simp
  have e: "pm_qos_list_action ex_requests [1, 2] 1 PM_QOS_UPDATE_REQ 70
     = (ex_requests(1 := ex_request 70 {0}), [2, 1])"
    by (simp add: pm_qos_list_action_def plist_del_def plist_node_init_def
        ex_requests_def ex_request_def word_sless_alt)
  show ?thesis
    using plist_remains_ordered[OF h1 h2, of 70 ex_config 70 None] e
    by (simp add: ex_constraints_def)
qed

lemma pm_qos_request_of:
  "pm_qos_class_constraints s cls = Inr c \<Longrightarrow> pm_qos_request s cls = Inr (target_value c)"
  by (simp add: pm_qos_request_def pm_qos_read_value_def)

lemma update_target_class_InlD:
  assumes "pm_qos_update_target_class k s cls req action val p = Inl e"
      and "pm_qos_class_constraints s cls = Inr c"
  shows "pm_qos_update_target k (requests s) c req action val p = Inl e"
  using assms by (auto simp: pm_qos_update_target_class_def split: sum.splits)

text \<open>
  C1: on a well-formed list, \<^verbatim>\<open>pm_qos_get_value\<close> returns the no-constraint value when
  the list is empty, else the minimum of the request values for \<^verbatim>\<open>PM_QOS_MIN\<close>, the
  maximum for \<^verbatim>\<open>PM_QOS_MAX\<close> and \<^verbatim>\<open>PM_QOS_FORCE_MAX\<close>, and the sum for
  \<^verbatim>\<open>PM_QOS_SUM\<close>.  A \<^verbatim>\<open>pm_qos_update_target\<close> call on a class stores the aggregate of
  the list it leaves, and \<^verbatim>\<open>pm_qos_request\<close> returns the stored value; the call completes
  for \<^verbatim>\<open>PM_QOS_MIN\<close> and \<^verbatim>\<open>PM_QOS_MAX\<close>, and for \<^verbatim>\<open>PM_QOS_FORCE_MAX\<close> with a
  notifier chain.
\<close>

theorem pm_qos_target_is_aggregate:
  assumes "plist_ordered m (plist c)"
      and "plist c = [] \<or> ctype c \<noteq> PM_QOS_UNITIALIZED"
  shows "(\<exists>v. pm_qos_get_value m c = Inr v \<and> spec_aggregate m c v) \<and>
         (pm_qos_class_constraints s cls = Inr c \<and> requests s = m \<and>
          (action = PM_QOS_ADD_REQ \<longrightarrow> req \<notin> set (plist c)) \<longrightarrow>
            (case pm_qos_update_target_class k s cls req action val p of
               Inl e \<Rightarrow> ctype c \<noteq> PM_QOS_MIN \<and> ctype c \<noteq> PM_QOS_MAX \<and>
                        (ctype c = PM_QOS_FORCE_MAX \<longrightarrow> notifiers c = None)
             | Inr (ret, s') \<Rightarrow>
                 (\<exists>c'. pm_qos_class_constraints s' cls = Inr c' \<and>
                        spec_aggregate (requests s') c' (target_value c') \<and>
                        pm_qos_request s' cls = Inr (target_value c'))))"
proof (intro conjI impI)
  show "\<exists>v. pm_qos_get_value m c = Inr v \<and> spec_aggregate m c v"
    using get_value_spec[OF assms] .
next
  assume h: "pm_qos_class_constraints s cls = Inr c \<and> requests s = m \<and>
          (action = PM_QOS_ADD_REQ \<longrightarrow> req \<notin> set (plist c))"
  then have cc: "pm_qos_class_constraints s cls = Inr c" and m: "requests s = m"
    and fresh: "action = PM_QOS_ADD_REQ \<longrightarrow> req \<notin> set (plist c)" by auto
  show "case pm_qos_update_target_class k s cls req action val p of
               Inl e \<Rightarrow> ctype c \<noteq> PM_QOS_MIN \<and> ctype c \<noteq> PM_QOS_MAX \<and>
                        (ctype c = PM_QOS_FORCE_MAX \<longrightarrow> notifiers c = None)
             | Inr (ret, s') \<Rightarrow>
                 (\<exists>c'. pm_qos_class_constraints s' cls = Inr c' \<and>
                        spec_aggregate (requests s') c' (target_value c') \<and>
                        pm_qos_request s' cls = Inr (target_value c'))"
  proof (cases "pm_qos_update_target_class k s cls req action val p")
    case (Inl e)
    have u: "pm_qos_update_target k m c req action val p = Inl e"
      using update_target_class_InlD[OF Inl cc] m by simp
    have "\<not> (ctype c = PM_QOS_MIN \<or> ctype c = PM_QOS_MAX \<or>
           (ctype c = PM_QOS_FORCE_MAX \<and> notifiers c \<noteq> None))"
    proof
      assume a: "ctype c = PM_QOS_MIN \<or> ctype c = PM_QOS_MAX \<or>
           (ctype c = PM_QOS_FORCE_MAX \<and> notifiers c \<noteq> None)"
      from update_target_completes[OF a, of k m req action val p] u show False by simp
    qed
    then show ?thesis using Inl by auto
  next
    case (Inr r)
    obtain ret s' where r: "r = (ret, s')" by (cases r) auto
    from update_target_class_InrD[OF Inr[unfolded r]] cc m obtain c' calls where
      u: "pm_qos_update_target k m c req action val p = Inr (ret, requests s', c', calls)"
      and c': "pm_qos_class_constraints s' cls = Inr c'"
      by auto
    from update_target_InrD[OF u] obtain curr where
      la: "(requests s', plist c') = pm_qos_list_action m (plist c) req action
             (if val = PM_QOS_DEFAULT_VALUE k then default_value c else val)"
      and g: "pm_qos_get_value (requests s') c' = Inr curr" and t: "target_value c' = curr"
      by blast
    have o: "plist_ordered (requests s') (plist c')"
      using list_action_ordered[OF assms(1) fresh la[symmetric]] .
    have ne: "plist c' = [] \<or> ctype c' \<noteq> PM_QOS_UNITIALIZED"
      using g by (auto simp: pm_qos_get_value_def plist_head_empty_def)
    from get_value_spec[OF o ne] g t
    have "spec_aggregate (requests s') c' (target_value c')" by auto
    then show ?thesis
      using Inr r c' pm_qos_request_of[OF c'] by simp
  qed
qed

lemma ex_class_constraints: "pm_qos_class_constraints (ex_state c) 1 = Inr c"
  by (simp add: pm_qos_class_constraints_def ex_state_def PM_QOS_NUM_CLASSES_def)

theorem pm_qos_target_is_aggregate_witness:
  "pm_qos_get_value ex_requests (ex_constraints PM_QOS_MIN [1, 2] 30 [10, 10]) = Inr 30 \<and>
   pm_qos_get_value ex_requests (ex_constraints PM_QOS_MAX [1, 2] 50 [50, 50]) = Inr 50 \<and>
   pm_qos_get_value ex_requests (ex_constraints PM_QOS_SUM [1, 2] 80 [10, 10]) = Inr 80 \<and>
   (\<exists>ret s' c'.
      pm_qos_update_target_class ex_config (ex_state (ex_constraints PM_QOS_MIN [1, 2] 30 [10, 10]))
        1 1 PM_QOS_UPDATE_REQ 70 None = Inr (ret, s') \<and>
      pm_qos_class_constraints s' 1 = Inr c' \<and>
      spec_aggregate (requests s') c' (target_value c') \<and>
      pm_qos_request s' 1 = Inr (target_value c'))"
proof -
  let ?c = "ex_constraints PM_QOS_MIN [1, 2] 30 [10, 10]"
  have h1: "plist_ordered ex_requests (plist ?c)"
    using ex_ordered by (simp add: ex_constraints_def)
  have h2: "plist ?c = [] \<or> ctype ?c \<noteq> PM_QOS_UNITIALIZED"
    by (simp add: ex_constraints_def)
  have h3: "pm_qos_class_constraints (ex_state ?c) 1 = Inr ?c \<and> requests (ex_state ?c) = ex_requests \<and>
          (PM_QOS_UPDATE_REQ = PM_QOS_ADD_REQ \<longrightarrow> 1 \<notin> set (plist ?c))"
    by (simp add: ex_class_constraints) (simp add: ex_state_def)
  have v: "pm_qos_get_value ex_requests (ex_constraints PM_QOS_MIN [1, 2] 30 [10, 10]) = Inr 30"
     "pm_qos_get_value ex_requests (ex_constraints PM_QOS_MAX [1, 2] 50 [50, 50]) = Inr 50"
     "pm_qos_get_value ex_requests (ex_constraints PM_QOS_SUM [1, 2] 80 [10, 10]) = Inr 80"
    by (simp_all add: pm_qos_get_value_def ex_constraints_def plist_head_empty_def
        plist_first_def plist_last_def ex_requests_def ex_request_def)
  have "case pm_qos_update_target_class ex_config (ex_state ?c) 1 1 PM_QOS_UPDATE_REQ 70 None of
               Inl e \<Rightarrow> ctype ?c \<noteq> PM_QOS_MIN \<and> ctype ?c \<noteq> PM_QOS_MAX \<and>
                        (ctype ?c = PM_QOS_FORCE_MAX \<longrightarrow> notifiers ?c = None)
             | Inr (ret, s') \<Rightarrow>
                 (\<exists>c'. pm_qos_class_constraints s' 1 = Inr c' \<and>
                        spec_aggregate (requests s') c' (target_value c') \<and>
                        pm_qos_request s' 1 = Inr (target_value c'))"
    using pm_qos_target_is_aggregate[OF h1 h2, of "ex_state ?c" 1 PM_QOS_UPDATE_REQ 1 ex_config 70 None] h3
    by blast
  then have "\<exists>ret s' c'.
      pm_qos_update_target_class ex_config (ex_state ?c) 1 1 PM_QOS_UPDATE_REQ 70 None = Inr (ret, s') \<and>
      pm_qos_class_constraints s' 1 = Inr c' \<and>
      spec_aggregate (requests s') c' (target_value c') \<and>
      pm_qos_request s' 1 = Inr (target_value c')"
    by (cases "pm_qos_update_target_class ex_config (ex_state ?c) 1 1 PM_QOS_UPDATE_REQ 70 None")
       (auto simp: ex_constraints_def)
  with v show ?thesis by blast
qed

subsection \<open>Return value and notification\<close>

text \<open>
  C2 (as stated): the notifier chain is invoked and 1 is returned exactly when the
  aggregated target changed, for every constraint type.  It fails for
  \<^verbatim>\<open>PM_QOS_FORCE_MAX\<close>: raising request 1 from 30 to 40 below the maximum 50 leaves the
  aggregate at 50, yet the call returns 1 and invokes the chain.
\<close>

theorem pm_qos_update_target_force_max_counterexample:
  "pm_qos_get_value ex_requests (ex_constraints PM_QOS_FORCE_MAX [1, 2] 50 [50, 50]) = Inr 50 \<and>
   pm_qos_update_target ex_config ex_requests (ex_constraints PM_QOS_FORCE_MAX [1, 2] 50 [50, 50])
       1 PM_QOS_UPDATE_REQ 40 None
     = Inr (1, ex_requests(1 := ex_request 40 {0}),
            ex_constraints PM_QOS_FORCE_MAX [1, 2] 50 [50, 50], [(7, 50, REQ_CLASS 1)]) \<and>
   pm_qos_get_value (ex_requests(1 := ex_request 40 {0}))
       (ex_constraints PM_QOS_FORCE_MAX [1, 2] 50 [50, 50]) = Inr 50"
  by (simp add: pm_qos_update_target_def pm_qos_get_value_def pm_qos_list_action_def
      pm_qos_set_value_for_cpus_def pm_qos_set_value_def plist_head_empty_def plist_first_def
      plist_last_def plist_del_def plist_node_init_def for_each_cpu_def
      ex_constraints_def ex_requests_def ex_request_def ex_config_def word_sless_alt
      upt_conv_Cons)

text \<open>
  C2 (amended): a call that completes on a constraints object of type \<^verbatim>\<open>PM_QOS_MIN\<close>,
  \<^verbatim>\<open>PM_QOS_MAX\<close> or \<^verbatim>\<open>PM_QOS_SUM\<close> returns 1 exactly when the aggregated target changed
  and 0 otherwise, and invokes the chain exactly when the target changed and
  \<^verbatim>\<open>c->notifiers\<close> is not NULL; for \<^verbatim>\<open>PM_QOS_MIN\<close> and \<^verbatim>\<open>PM_QOS_MAX\<close> every call
  completes.  On \<^verbatim>\<open>PM_QOS_FORCE_MAX\<close> a call that completes has invoked the chain and
  returns 1, whether or not the target changed.
\<close>

theorem pm_qos_update_target_notifies:
  "case pm_qos_update_target k m c req action val p of
     Inl e \<Rightarrow> ctype c \<noteq> PM_QOS_MIN \<and> ctype c \<noteq> PM_QOS_MAX
   | Inr (ret, m', c', calls) \<Rightarrow>
       (\<exists>prev curr.
          pm_qos_get_value m c = Inr prev \<and> pm_qos_get_value m' c' = Inr curr \<and>
          target_value c' = curr \<and>
          (if ctype c = PM_QOS_FORCE_MAX
           then ret = 1 \<and>
                (\<exists>nh. notifiers c = Some nh \<and>
                   calls = [(nh, curr, case p of None \<Rightarrow> REQ_CLASS req | Some x \<Rightarrow> PARAM x)])
           else ret = (if prev \<noteq> curr then 1 else 0) \<and>
                calls = (if prev \<noteq> curr then
                           (case notifiers c of
                              None \<Rightarrow> []
                            | Some nh \<Rightarrow>
                                [(nh, curr, case p of None \<Rightarrow> REQ_CLASS req | Some x \<Rightarrow> PARAM x)])
                         else [])))"
proof (cases "pm_qos_update_target k m c req action val p")
  case (Inl e)
  have "\<not> (ctype c = PM_QOS_MIN \<or> ctype c = PM_QOS_MAX \<or>
           (ctype c = PM_QOS_FORCE_MAX \<and> notifiers c \<noteq> None))"
  proof
    assume a: "ctype c = PM_QOS_MIN \<or> ctype c = PM_QOS_MAX \<or>
           (ctype c = PM_QOS_FORCE_MAX \<and> notifiers c \<noteq> None)"
    from update_target_completes[OF a, of k m req action val p] Inl show False by simp
  qed
  then show ?thesis using Inl by simp
next
  case (Inr r)
  obtain ret m' c' calls where r: "r = (ret, m', c', calls)" by (cases r) auto
  from update_target_InrD[OF Inr[unfolded r]] show ?thesis
    unfolding Inr r by (simp only: sum.case prod.case) blast
qed

theorem pm_qos_update_target_notifies_witness:
  "pm_qos_update_target ex_config ex_requests (ex_constraints PM_QOS_MIN [1, 2] 30 [10, 10])
       1 PM_QOS_UPDATE_REQ 70 None
     = Inr (1, ex_requests(1 := ex_request 70 {0}),
            ex_constraints PM_QOS_MIN [2, 1] 50 [10, 10], [(7, 50, REQ_CLASS 1)]) \<and>
   pm_qos_get_value ex_requests (ex_constraints PM_QOS_MIN [1, 2] 30 [10, 10]) = Inr 30 \<and>
   pm_qos_get_value (ex_requests(1 := ex_request 70 {0}))
       (ex_constraints PM_QOS_MIN [2, 1] 50 [10, 10]) = Inr 50"
proof -
  have e: "pm_qos_update_target ex_config ex_requests (ex_constraints PM_QOS_MIN [1, 2] 30 [10, 10])
       1 PM_QOS_UPDATE_REQ 70 None
     = Inr (1, ex_requests(1 := ex_request 70 {0}),
            ex_constraints PM_QOS_MIN [2, 1] 50 [10, 10], [(7, 50, REQ_CLASS 1)])"
    by (simp add: pm_qos_update_target_def pm_qos_get_value_def pm_qos_list_action_def
      pm_qos_set_value_for_cpus_def pm_qos_set_value_def plist_head_empty_def plist_first_def
      plist_last_def plist_del_def plist_node_init_def for_each_cpu_def
      ex_constraints_def ex_requests_def ex_request_def ex_config_def word_sless_alt
      upt_conv_Cons)
  have g: "pm_qos_get_value ex_requests (ex_constraints PM_QOS_MIN [1, 2] 30 [10, 10]) = Inr 30"
    by (simp add: pm_qos_get_value_def plist_head_empty_def plist_first_def
        ex_constraints_def ex_requests_def ex_request_def)
  show ?thesis
    using pm_qos_update_target_notifies[where k = ex_config and m = ex_requests
        and c = "ex_constraints PM_QOS_MIN [1, 2] 30 [10, 10]" and req = 1
        and action = PM_QOS_UPDATE_REQ and val = 70 and p = None]
    unfolding e g by (auto simp: ex_constraints_def)
qed

subsection \<open>Per-CPU targets\<close>

text \<open>
  C5: \<^verbatim>\<open>pm_qos_update_target\<close> reaches no \<^verbatim>\<open>BUG()\<close> for the four supported types.  The
  code breaks this for \<^verbatim>\<open>PM_QOS_SUM\<close>: adding request 1 (affine to CPU 0) with value 5 to
  an empty \<^verbatim>\<open>PM_QOS_SUM\<close> object runs into the \<^verbatim>\<open>default:\<close> branch of
  \<^verbatim>\<open>pm_qos_set_value_for_cpus\<close>, although \<^verbatim>\<open>pm_qos_get_value\<close> has just summed the list.
  Opening the misc device of a \<^verbatim>\<open>PM_QOS_SUM\<close> class gets there as well.
\<close>

theorem pm_qos_update_target_sum_bug:
  "pm_qos_update_target ex_config ex_requests (ex_constraints PM_QOS_SUM [] 10 [10, 10])
       1 PM_QOS_ADD_REQ 5 None = Inl BUG \<and>
   pm_qos_get_value (plist_node_init ex_requests 1 5) (ex_constraints PM_QOS_SUM [1] 10 [10, 10])
     = Inr 5 \<and>
   pm_qos_power_open ex_config (ex_state (ex_constraints PM_QOS_SUM [] 10 [10, 10]))
       \<lparr>private_data = 0\<rparr> 61 9 = Inl BUG"
proof -
  have fnd: "find_pm_qos_object_by_minor (ex_state (ex_constraints PM_QOS_SUM [] 10 [10, 10])) 61 = 1"
    by (simp add: find_pm_qos_object_by_minor_def PM_QOS_CPU_DMA_LATENCY_def
        PM_QOS_NUM_CLASSES_def ex_state_def upt_conv_Cons)
  have "pm_qos_power_open ex_config (ex_state (ex_constraints PM_QOS_SUM [] 10 [10, 10]))
       \<lparr>private_data = 0\<rparr> 61 9 = Inl BUG"
    unfolding pm_qos_power_open_def fnd
    by (simp add: PM_QOS_CPU_DMA_LATENCY_def NULL_def pm_qos_add_request_trace_def
        pm_qos_request_active_def pm_qos_add_request_affinity_def ex_state_def ex_eval)
  then show ?thesis
    by (simp add: pm_qos_update_target_def pm_qos_get_value_def pm_qos_list_action_def
      pm_qos_set_value_for_cpus_def pm_qos_set_value_def plist_head_empty_def plist_first_def
      plist_last_def plist_del_def plist_node_init_def for_each_cpu_def
      ex_constraints_def ex_requests_def ex_request_def ex_config_def word_sless_alt
      upt_conv_Cons)
qed

lemma set_value_for_cpus_nth:
  assumes r: "pm_qos_set_value_for_cpus k m c = Inr c'"
      and t: "ctype c = PM_QOS_MIN \<or> ctype c = PM_QOS_MAX"
      and l: "length (target_per_cpu c) = NR_CPUS k"
      and i: "cpu < NR_CPUS k" "cpu \<in> cpu_possible_mask k"
  shows "sint (target_per_cpu c' ! cpu) =
           (if ctype c = PM_QOS_MIN
            then Min (insert (sint (default_value c)) (node_prio m ` set (covering m (plist c) cpu)))
            else Max (insert (sint (default_value c)) (node_prio m ` set (covering m (plist c) cpu))))"
proof -
  let ?q0 = "replicate (NR_CPUS k) (default_value c)"
  obtain qv where q: "qos_val_reqs k m (ctype c) (plist c) ?q0 = Inr qv"
    using r by (auto simp: pm_qos_set_value_for_cpus_def split: sum.splits)
  have c': "target_per_cpu c' = fold (\<lambda>cpu tpc. tpc[cpu := qv ! cpu])
                   (for_each_cpu k (cpu_possible_mask k)) (target_per_cpu c)"
    using r q by (auto simp: pm_qos_set_value_for_cpus_def)
  have lq: "length qv = NR_CPUS k"
    using t q qos_val_reqs_MIN[of k m "plist c" ?q0] qos_val_reqs_MAX[of k m "plist c" ?q0]
    by auto
  have n: "target_per_cpu c' ! cpu = qv ! cpu"
    unfolding c' using fold_copy_nth[of qv "target_per_cpu c" cpu] lq l i
    by (simp add: set_for_each_cpu)
  show ?thesis
  proof (cases "ctype c = PM_QOS_MIN")
    case True
    then show ?thesis
      using q qos_val_reqs_MIN[of k m "plist c" ?q0] i n by auto
  next
    case False
    then have "ctype c = PM_QOS_MAX" using t by simp
    then show ?thesis
      using q qos_val_reqs_MAX[of k m "plist c" ?q0] i n by auto
  qed
qed

lemma covering_cong:
  "covering m (plist (c\<lparr>plist := xs, target_value := v\<rparr>)) cpu = covering m xs cpu"
  by simp

text \<open>
  C3 (as stated): after \<^verbatim>\<open>pm_qos_update_target\<close>, \<^verbatim>\<open>target_per_cpu[cpu]\<close> is the minimum
  (\<^verbatim>\<open>PM_QOS_MIN\<close>) or maximum (\<^verbatim>\<open>PM_QOS_MAX\<close>) of the values of exactly the requests whose
  mask contains the CPU, and the default value when no request covers the CPU.  It fails
  where a request is weaker than the default: after adding request 2 (value 50, both CPUs)
  to an empty \<^verbatim>\<open>PM_QOS_MIN\<close> object with default value 10, the only request covering CPU 0
  has value 50, and \<^verbatim>\<open>target_per_cpu[0]\<close> is 10.
\<close>

theorem pm_qos_target_per_cpu_counterexample:
  "pm_qos_update_target ex_config ex_requests (ex_constraints PM_QOS_MIN [] 10 [10, 10])
       2 PM_QOS_ADD_REQ 50 None
     = Inr (1, ex_requests, ex_constraints PM_QOS_MIN [2] 50 [10, 10], [(7, 50, REQ_CLASS 2)]) \<and>
   covering ex_requests (plist (ex_constraints PM_QOS_MIN [2] 50 [10, 10])) 0 = [2] \<and>
   Min (node_prio ex_requests `
          set (covering ex_requests (plist (ex_constraints PM_QOS_MIN [2] 50 [10, 10])) 0)) = 50 \<and>
   sint (target_per_cpu (ex_constraints PM_QOS_MIN [2] 50 [10, 10]) ! 0) = 10"
proof -
  have "ex_requests(2 := ex_requests 2\<lparr>prio := 50\<rparr>) = ex_requests"
    by (simp add: ex_requests_def ex_request_def fun_eq_iff)
  then show ?thesis
    by (simp add: pm_qos_update_target_def pm_qos_get_value_def pm_qos_list_action_def
        pm_qos_set_value_for_cpus_def pm_qos_set_value_def plist_head_empty_def plist_first_def
        plist_last_def plist_del_def plist_node_init_def for_each_cpu_def covering_def
        node_prio_def ex_constraints_def ex_config_def word_sless_alt upt_conv_Cons)
       (simp add: ex_requests_def ex_request_def word_sless_alt)
qed

text \<open>
  C3 (amended): a \<^verbatim>\<open>pm_qos_update_target\<close> call on a \<^verbatim>\<open>PM_QOS_MIN\<close> or \<^verbatim>\<open>PM_QOS_MAX\<close>
  object completes, and then for each possible CPU \<^verbatim>\<open>target_per_cpu[cpu]\<close> is the minimum
  (\<^verbatim>\<open>PM_QOS_MIN\<close>) or maximum (\<^verbatim>\<open>PM_QOS_MAX\<close>) of the default value together with the
  values of exactly the requests whose mask contains the CPU; \<^verbatim>\<open>pm_qos_request_for_cpu\<close>
  returns that value.
\<close>

theorem pm_qos_target_per_cpu:
  assumes "ctype c = PM_QOS_MIN \<or> ctype c = PM_QOS_MAX"
      and "length (target_per_cpu c) = NR_CPUS k"
      and "cpu < NR_CPUS k" and "cpu \<in> cpu_possible_mask k"
  shows "\<exists>ret m' c' calls.
           pm_qos_update_target k m c req action val p = Inr (ret, m', c', calls) \<and>
           sint (target_per_cpu c' ! cpu) =
             (if ctype c = PM_QOS_MIN
              then Min (insert (sint (default_value c'))
                          (node_prio m' ` set (covering m' (plist c') cpu)))
              else Max (insert (sint (default_value c'))
                          (node_prio m' ` set (covering m' (plist c') cpu)))) \<and>
           (pm_qos_class_constraints s cls = Inr c \<and> requests s = m \<longrightarrow>
              (\<exists>s'. pm_qos_update_target_class k s cls req action val p = Inr (ret, s') \<and>
                    pm_qos_request_for_cpu s' cls cpu = Inr (target_per_cpu c' ! cpu)))"
proof -
  from update_target_completes[of c k m req action val p] assms(1)
  obtain ret m' c' calls where
    u: "pm_qos_update_target k m c req action val p = Inr (ret, m', c', calls)"
    by blast
  from update_target_InrD[OF u] obtain curr where
    sv: "pm_qos_set_value_for_cpus k m' (c\<lparr>plist := plist c', target_value := curr\<rparr>) = Inr c'"
    and d: "default_value c' = default_value c"
    by blast
  have a: "sint (target_per_cpu c' ! cpu) =
             (if ctype c = PM_QOS_MIN
              then Min (insert (sint (default_value c'))
                          (node_prio m' ` set (covering m' (plist c') cpu)))
              else Max (insert (sint (default_value c'))
                          (node_prio m' ` set (covering m' (plist c') cpu))))"
    using set_value_for_cpus_nth[OF sv _ _ assms(3,4)] assms(1,2) d by simp
  have len: "length (target_per_cpu c') = NR_CPUS k"
    using set_value_for_cpus_fields[OF sv] assms(2) by simp
  have b: "\<exists>s'. pm_qos_update_target_class k s cls req action val p = Inr (ret, s') \<and>
                    pm_qos_request_for_cpu s' cls cpu = Inr (target_per_cpu c' ! cpu)"
    if h: "pm_qos_class_constraints s cls = Inr c \<and> requests s = m"
  proof -
    let ?s' = "s\<lparr>requests := m',
                 pm_qos_array := (pm_qos_array s)
                   [nat cls := (pm_qos_array s ! nat cls)\<lparr>constraints := Some c'\<rparr>],
                 notified := notified s @ calls\<rparr>"
    have 1: "pm_qos_update_target_class k s cls req action val p = Inr (ret, ?s')"
      using h u by (simp add: pm_qos_update_target_class_def)
    have 2: "pm_qos_class_constraints ?s' cls = Inr c'"
      using update_target_class_InrD[OF 1] h u by auto
    show ?thesis
      using 1 2 len assms(3) by (auto simp: pm_qos_request_for_cpu_def)
  qed
  show ?thesis using u a b by blast
qed

theorem pm_qos_target_per_cpu_witness:
  "pm_qos_update_target ex_config ex_requests (ex_constraints PM_QOS_MAX [1, 2] 50 [50, 50])
       1 PM_QOS_UPDATE_REQ 70 None
     = Inr (1, ex_requests(1 := ex_request 70 {0}),
            ex_constraints PM_QOS_MAX [2, 1] 70 [70, 50], [(7, 70, REQ_CLASS 1)]) \<and>
   covering (ex_requests(1 := ex_request 70 {0})) [2, 1] 1 = [2] \<and>
   (\<exists>ret m' c' calls.
      pm_qos_update_target ex_config ex_requests (ex_constraints PM_QOS_MAX [1, 2] 50 [50, 50])
          1 PM_QOS_UPDATE_REQ 70 None = Inr (ret, m', c', calls) \<and>
      sint (target_per_cpu c' ! 1) =
        Max (insert (sint (default_value c')) (node_prio m' ` set (covering m' (plist c') 1))))"
proof -
  let ?c = "ex_constraints PM_QOS_MAX [1, 2] 50 [50, 50]"
  have h1: "ctype ?c = PM_QOS_MIN \<or> ctype ?c = PM_QOS_MAX"
    by (simp add: ex_constraints_def)
  have h2: "length (target_per_cpu ?c) = NR_CPUS ex_config"
    by (simp add: ex_constraints_def ex_config_def)
  have h3: "1 < NR_CPUS ex_config" and h4: "1 \<in> cpu_possible_mask ex_config"
    by (simp_all add: ex_config_def)
  have e: "pm_qos_update_target ex_config ex_requests ?c 1 PM_QOS_UPDATE_REQ 70 None
     = Inr (1, ex_requests(1 := ex_request 70 {0}),
            ex_constraints PM_QOS_MAX [2, 1] 70 [70, 50], [(7, 70, REQ_CLASS 1)])"
    by (simp add: pm_qos_update_target_def pm_qos_get_value_def pm_qos_list_action_def
      pm_qos_set_value_for_cpus_def pm_qos_set_value_def plist_head_empty_def plist_first_def
      plist_last_def plist_del_def plist_node_init_def for_each_cpu_def
      ex_constraints_def ex_requests_def ex_request_def ex_config_def word_sless_alt
      upt_conv_Cons)
  have c: "covering (ex_requests(1 := ex_request 70 {0})) [2, 1] 1 = [2]"
    by (simp add: covering_def ex_requests_def ex_request_def)
  have t: "ctype ?c \<noteq> PM_QOS_MIN"
    by (simp add: ex_constraints_def)
  from pm_qos_target_per_cpu[OF h1 h2 h3 h4, where m = ex_requests and req = 1
      and action = PM_QOS_UPDATE_REQ and val = 70 and p = None and s = "ex_state ?c" and cls = 1]
  have "\<exists>ret m' c' calls.
      pm_qos_update_target ex_config ex_requests ?c 1 PM_QOS_UPDATE_REQ 70 None
         = Inr (ret, m', c', calls) \<and>
      sint (target_per_cpu c' ! 1) =
        Max (insert (sint (default_value c')) (node_prio m' ` set (covering m' (plist c') 1)))"
    unfolding if_not_P[OF t] by blast
  with e c show ?thesis by blast
qed

subsection \<open>Frame and guards\<close>

lemma list_action_store:
  "pm_qos_list_action m xs node action v = (m', xs') \<Longrightarrow> a \<noteq> node \<Longrightarrow> m' a = m a"
  by (cases action) (auto simp: pm_qos_list_action_def plist_node_init_def Let_def)

lemma list_action_fields:
  "pm_qos_list_action m xs node action v = (m', xs') \<Longrightarrow>
     req_type (m' a) = req_type (m a) \<and> cpus_affine (m' a) = cpus_affine (m a) \<and>
     irq (m' a) = irq (m a) \<and> pm_qos_class (m' a) = pm_qos_class (m a) \<and>
     work_pending (m' a) = work_pending (m a)"
  by (cases action; cases "a = node")
     (auto simp: pm_qos_list_action_def plist_node_init_def Let_def)

lemma fold_total_cong:
  "\<forall>n \<in> set xs. prio (m' n) = prio (m n) \<Longrightarrow>
   fold (\<lambda>node total_value. total_value + prio (m' node)) xs a =
   fold (\<lambda>node total_value. total_value + prio (m node)) xs a"
  by (induction xs arbitrary: a) auto

lemma get_value_store_cong:
  assumes "\<forall>n \<in> set (plist c). prio (m' n) = prio (m n)"
  shows "pm_qos_get_value m' c = pm_qos_get_value m c"
proof (cases "plist c = []")
  case True
  then show ?thesis by (simp add: pm_qos_get_value_def plist_head_empty_def)
next
  case False
  then have "prio (m' (hd (plist c))) = prio (m (hd (plist c)))"
    and "prio (m' (last (plist c))) = prio (m (last (plist c)))"
    using assms by simp_all
  then show ?thesis
    using False fold_total_cong[OF assms, of 0]
    by (cases "ctype c")
       (simp_all add: pm_qos_get_value_def plist_head_empty_def plist_first_def plist_last_def)
qed

text \<open>
  C6: a \<^verbatim>\<open>pm_qos_update_target\<close> call made for a request of class \<open>cls\<close> leaves every other
  slot of \<^verbatim>\<open>pm_qos_array\<close> as it was: the constraints object of another class keeps its
  request list, its target value and its per-CPU targets, and, the request not being linked
  on that other list, its aggregate is the same in the store the call leaves.
\<close>

theorem pm_qos_update_target_frame:
  assumes "pm_qos_update_target_class k s cls req action val p = Inr (ret, s')"
      and "i \<noteq> nat cls"
      and "constraints (pm_qos_array s ! i) = Some ci"
      and "req \<notin> set (plist ci)"
  shows "length (pm_qos_array s') = length (pm_qos_array s) \<and>
         pm_qos_array s' ! i = pm_qos_array s ! i \<and>
         constraints (pm_qos_array s' ! i) = Some ci \<and>
         pm_qos_get_value (requests s') ci = pm_qos_get_value (requests s) ci \<and>
         pm_qos_request s' (int i) = pm_qos_request s (int i) \<and>
         pm_qos_request_for_cpu s' (int i) cpu = pm_qos_request_for_cpu s (int i) cpu"
proof -
  from update_target_class_InrD[OF assms(1)] obtain c c' calls where
    u: "pm_qos_update_target k (requests s) c req action val p = Inr (ret, requests s', c', calls)"
    and a: "pm_qos_array s' =
      (pm_qos_array s)[nat cls := (pm_qos_array s ! nat cls)\<lparr>constraints := Some c'\<rparr>]"
    by blast
  have l: "length (pm_qos_array s') = length (pm_qos_array s)"
    using a by simp
  have n: "pm_qos_array s' ! i = pm_qos_array s ! i"
    using a assms(2) by simp
  from update_target_InrD[OF u] have
    "(requests s', plist c') = pm_qos_list_action (requests s) (plist c) req action
        (if val = PM_QOS_DEFAULT_VALUE k then default_value c else val)"
    by blast
  then have "\<forall>n \<in> set (plist ci). requests s' n = requests s n"
    using list_action_store[of "requests s" "plist c" req action _ "requests s'" "plist c'"]
      assms(4) by metis
  then have g: "pm_qos_get_value (requests s') ci = pm_qos_get_value (requests s) ci"
    using get_value_store_cong[of ci "requests s'" "requests s"] by simp
  have cc: "pm_qos_class_constraints s' (int i) = pm_qos_class_constraints s (int i)"
    using l n by (simp add: pm_qos_class_constraints_def PM_QOS_NUM_CLASSES_def)
  show ?thesis
    using l n g cc assms(3) by (simp add: pm_qos_request_def pm_qos_request_for_cpu_def)
qed

theorem pm_qos_update_target_frame_witness:
  "pm_qos_update_target_class ex_config ex_state2 1 1 PM_QOS_UPDATE_REQ 20 None
     = Inr (1, ex_state2
          \<lparr>requests := (requests ex_state2)(1 := ex_request 20 {0}),
           pm_qos_array := (pm_qos_array ex_state2)
             [1 := (pm_qos_array ex_state2 ! 1)
                     \<lparr>constraints := Some (ex_constraints PM_QOS_MIN [1] 20 [10, 10])\<rparr>],
           notified := [(7, 20, REQ_CLASS 1)]\<rparr>) \<and>
   pm_qos_array
     (ex_state2
          \<lparr>requests := (requests ex_state2)(1 := ex_request 20 {0}),
           pm_qos_array := (pm_qos_array ex_state2)
             [1 := (pm_qos_array ex_state2 ! 1)
                     \<lparr>constraints := Some (ex_constraints PM_QOS_MIN [1] 20 [10, 10])\<rparr>],
           notified := [(7, 20, REQ_CLASS 1)]\<rparr>) ! 2 = pm_qos_array ex_state2 ! 2"
proof -
  let ?s' = "ex_state2
          \<lparr>requests := (requests ex_state2)(1 := ex_request 20 {0}),
           pm_qos_array := (pm_qos_array ex_state2)
             [1 := (pm_qos_array ex_state2 ! 1)
                     \<lparr>constraints := Some (ex_constraints PM_QOS_MIN [1] 20 [10, 10])\<rparr>],
           notified := [(7, 20, REQ_CLASS 1)]\<rparr>"
  have u: "pm_qos_update_target ex_config (requests ex_state2)
             (ex_constraints PM_QOS_MIN [1] 30 [10, 10]) 1 PM_QOS_UPDATE_REQ 20 None
           = Inr (1, (requests ex_state2)(1 := ex_request 20 {0}),
                  ex_constraints PM_QOS_MIN [1] 20 [10, 10], [(7, 20, REQ_CLASS 1)])"
    by (simp add: pm_qos_update_target_def pm_qos_get_value_def pm_qos_list_action_def
      pm_qos_set_value_for_cpus_def pm_qos_set_value_def plist_head_empty_def plist_first_def
      plist_last_def plist_del_def plist_node_init_def for_each_cpu_def ex_state2_def
      ex_constraints_def ex_requests_def ex_request_def ex_config_def word_sless_alt
      upt_conv_Cons)
  have cc: "pm_qos_class_constraints ex_state2 1 = Inr (ex_constraints PM_QOS_MIN [1] 30 [10, 10])"
    by (simp add: pm_qos_class_constraints_def PM_QOS_NUM_CLASSES_def ex_state2_def)
  have h1: "pm_qos_update_target_class ex_config ex_state2 1 1 PM_QOS_UPDATE_REQ 20 None
     = Inr (1, ?s')"
    by (simp only: pm_qos_update_target_class_def cc u sum.case prod.case)
       (simp add: ex_state2_def)
  have h2: "2 \<noteq> nat 1" by simp
  have h3: "constraints (pm_qos_array ex_state2 ! 2) = Some (ex_constraints PM_QOS_MAX [2] 50 [50, 50])"
    by (simp add: ex_state2_def)
  have h4: "1 \<notin> set (plist (ex_constraints PM_QOS_MAX [2] 50 [50, 50]))"
    by (simp add: ex_constraints_def)
  show ?thesis
    using pm_qos_update_target_frame[OF h1 h2 h3 h4] h1 by simp
qed

text \<open>
  C9: \<^verbatim>\<open>pm_qos_add_request\<close> on a request that is already active, and
  \<^verbatim>\<open>pm_qos_update_request\<close> or \<^verbatim>\<open>pm_qos_remove_request\<close> on a request that is not active,
  return with the whole state as it was: no list, target value, per-CPU target, request or
  notifier is touched.  A NULL request is ignored in the same way.
\<close>

theorem pm_qos_guarded_calls_noop:
  "(req = NULL \<or> pm_qos_request_active (requests s) req \<longrightarrow>
      pm_qos_add_request_trace k s req cls val = Inr s) \<and>
   (req = NULL \<or> \<not> pm_qos_request_active (requests s) req \<longrightarrow>
      pm_qos_update_request k s req val = Inr s \<and> pm_qos_remove_request k s req = Inr s)"
  by (simp add: pm_qos_add_request_trace_def pm_qos_update_request_def
      pm_qos_remove_request_def)

theorem pm_qos_guarded_calls_noop_witness:
  "pm_qos_request_active (requests ex_state2) 1 \<and>
   pm_qos_add_request_trace ex_config ex_state2 1 2 40 = Inr ex_state2 \<and>
   \<not> pm_qos_request_active (requests ex_state2) 3 \<and>
   pm_qos_update_request ex_config ex_state2 3 40 = Inr ex_state2 \<and>
   pm_qos_remove_request ex_config ex_state2 3 = Inr ex_state2"
proof -
  have a: "pm_qos_request_active (requests ex_state2) 1"
    by (simp add: pm_qos_request_active_def ex_state2_def ex_requests_def ex_request_def)
  have b: "\<not> pm_qos_request_active (requests ex_state2) 3"
    by (simp add: pm_qos_request_active_def ex_state2_def ex_requests_def zero_request_def)
  show ?thesis
    using pm_qos_guarded_calls_noop[of 1 ex_state2 ex_config 2 40]
      pm_qos_guarded_calls_noop[of 3 ex_state2 ex_config 2 40] a b
    by simp
qed

subsection \<open>Flags\<close>

lemma flags_or_append: "flags_or fm (xs @ [r]) = flags_or fm xs OR fm r"
  by (simp add: flags_or_def)

lemma flags_or_cong:
  "\<forall>r \<in> set xs. fm' r = fm r \<Longrightarrow> fold (\<lambda>r val. val OR fm' r) xs a = fold (\<lambda>r val. val OR fm r) xs a"
  by (induction xs arbitrary: a) auto

lemma flags_or_upd: "req \<notin> set xs \<Longrightarrow> flags_or (fm(req := v)) xs = flags_or fm xs"
  unfolding flags_or_def by (rule flags_or_cong) simp

lemma flags_add_req_inv:
  assumes "req \<notin> set (flist pqf)" and "effective_flags pqf = flags_or fm (flist pqf)"
      and "pm_qos_flags_add_req fm pqf req val = (fm', pqf')"
  shows "effective_flags pqf' = flags_or fm' (flist pqf')"
  using assms
  by (auto simp: pm_qos_flags_add_req_def list_add_tail_def flags_or_append flags_or_upd)

lemma flags_remove_req_inv:
  "effective_flags (pm_qos_flags_remove_req fm pqf req)
     = flags_or fm (flist (pm_qos_flags_remove_req fm pqf req)) \<and>
   req \<notin> set (flist (pm_qos_flags_remove_req fm pqf req))"
  by (simp add: pm_qos_flags_remove_req_def list_del_def flags_or_def Let_def)

text \<open>
  C8: after every add, update and remove action of \<^verbatim>\<open>pm_qos_update_flags\<close> the effective
  flags are the bitwise OR of the flags of the requests in the set (for an add, the
  invariant holds before and the request is not in the set yet), and the function returns
  true exactly when the effective value, taken as 0 for an empty set, differs before and
  after.
\<close>

theorem pm_qos_update_flags_invariant:
  assumes "action = PM_QOS_ADD_REQ \<longrightarrow>
             req \<notin> set (flist pqf) \<and> effective_flags pqf = flags_or fm (flist pqf)"
  shows "case pm_qos_update_flags fm pqf req action val of
           (ret, fm', pqf') \<Rightarrow>
             effective_flags pqf' = flags_or fm' (flist pqf') \<and>
             ret = (flags_value pqf \<noteq> flags_value pqf')"
proof -
  obtain ret fm' pqf' where r: "pm_qos_update_flags fm pqf req action val = (ret, fm', pqf')"
    by (cases "pm_qos_update_flags fm pqf req action val") auto
  have ret: "ret = (flags_value pqf \<noteq> flags_value pqf')"
    using r by (auto simp: pm_qos_update_flags_def flags_value_def Let_def split: prod.splits)
  have inv: "effective_flags pqf' = flags_or fm' (flist pqf')"
  proof (cases action)
    case PM_QOS_ADD_REQ
    then have "pm_qos_flags_add_req fm pqf req val = (fm', pqf')"
      using r by (auto simp: pm_qos_update_flags_def Let_def split: prod.splits)
    then show ?thesis
      using flags_add_req_inv[of req pqf fm val fm' pqf'] assms PM_QOS_ADD_REQ by simp
  next
    case PM_QOS_UPDATE_REQ
    then have "pm_qos_flags_add_req fm (pm_qos_flags_remove_req fm pqf req) req val = (fm', pqf')"
      using r by (auto simp: pm_qos_update_flags_def Let_def split: prod.splits)
    then show ?thesis
      using flags_add_req_inv[of req "pm_qos_flags_remove_req fm pqf req" fm val fm' pqf']
        flags_remove_req_inv[of fm pqf req] by simp
  next
    case PM_QOS_REMOVE_REQ
    then have "fm' = fm" "pqf' = pm_qos_flags_remove_req fm pqf req"
      using r by (auto simp: pm_qos_update_flags_def Let_def split: prod.splits)
    then show ?thesis
      using flags_remove_req_inv[of fm pqf req] by simp
  qed
  show ?thesis using r ret inv by simp
qed

theorem pm_qos_update_flags_invariant_witness:
  "pm_qos_update_flags ((\<lambda>a. 0)(1 := 1)) \<lparr>flist = [1], effective_flags = 1\<rparr> 2 PM_QOS_ADD_REQ 6
     = (True, (\<lambda>a. 0)(1 := 1, 2 := 6), \<lparr>flist = [1, 2], effective_flags = 7\<rparr>) \<and>
   flags_or ((\<lambda>a. 0)(1 := 1, 2 := 6)) [1, 2] = 7"
proof -
  have h: "PM_QOS_ADD_REQ = PM_QOS_ADD_REQ \<longrightarrow>
             2 \<notin> set (flist \<lparr>flist = [1], effective_flags = 1\<rparr>) \<and>
             effective_flags \<lparr>flist = [1], effective_flags = 1\<rparr>
               = flags_or ((\<lambda>a. 0)(1 := 1)) (flist \<lparr>flist = [1], effective_flags = 1\<rparr>)"
    by (simp add: flags_or_def)
  have e: "pm_qos_update_flags ((\<lambda>a. 0)(1 := 1)) \<lparr>flist = [1], effective_flags = 1\<rparr> 2 PM_QOS_ADD_REQ 6
     = (True, (\<lambda>a. 0)(1 := 1, 2 := 6), \<lparr>flist = [1, 2], effective_flags = 7\<rparr>)"
    by (simp add: pm_qos_update_flags_def pm_qos_flags_add_req_def list_add_tail_def)
  show ?thesis
    using pm_qos_update_flags_invariant[OF h, of 6] e by simp
qed

subsection \<open>IRQ affinity\<close>

lemma fold_copy_nth_gen:
  "i < length t \<Longrightarrow>
   fold (\<lambda>cpu tpc. tpc[cpu := q ! cpu]) cpus t ! i = (if i \<in> set cpus then q ! i else t ! i)"
proof (induction cpus arbitrary: t)
  case Nil
  then show ?case by simp
next
  case (Cons c cpus)
  from Cons.IH[of "t[c := q ! c]"] Cons.prems show ?case
    by (auto simp: nth_list_update)
qed

lemma fold_copy_idem:
  "fold (\<lambda>cpu tpc. tpc[cpu := q ! cpu]) cpus (fold (\<lambda>cpu tpc. tpc[cpu := q ! cpu]) cpus t)
     = fold (\<lambda>cpu tpc. tpc[cpu := q ! cpu]) cpus t"
  by (rule nth_equalityI) (simp_all add: fold_copy_length fold_copy_nth_gen)

lemma set_value_for_cpus_idem:
  assumes "pm_qos_set_value_for_cpus k m c = Inr c'"
  shows "pm_qos_set_value_for_cpus k m c' = Inr c'"
proof -
  obtain qv where q: "qos_val_reqs k m (ctype c) (plist c) (replicate (NR_CPUS k) (default_value c)) = Inr qv"
    using assms by (auto simp: pm_qos_set_value_for_cpus_def split: sum.splits)
  have c': "c' = c\<lparr>target_per_cpu := fold (\<lambda>cpu tpc. tpc[cpu := qv ! cpu])
                   (for_each_cpu k (cpu_possible_mask k)) (target_per_cpu c)\<rparr>"
    using assms q by (auto simp: pm_qos_set_value_for_cpus_def)
  show ?thesis
    unfolding c' by (simp add: pm_qos_set_value_for_cpus_def q fold_copy_idem)
qed

lemma class_constraints_array:
  "pm_qos_array s1 = pm_qos_array s \<Longrightarrow>
   pm_qos_class_constraints s1 cls = pm_qos_class_constraints s cls"
  by (simp add: pm_qos_class_constraints_def PM_QOS_NUM_CLASSES_def)

lemma irq_update_common:
  assumes cc: "pm_qos_class_constraints s1 cls = Inr c"
  shows "case pm_qos_update_target_class k s1 cls req PM_QOS_UPDATE_REQ v None of
           Inl e \<Rightarrow> ctype c \<noteq> PM_QOS_MIN \<and> ctype c \<noteq> PM_QOS_MAX \<and>
                    (ctype c = PM_QOS_FORCE_MAX \<longrightarrow> notifiers c = None)
         | Inr (ret, s') \<Rightarrow>
             irq_update_post k c cls req (cpus_affine (requests s1 req))
               (if v = PM_QOS_DEFAULT_VALUE k then default_value c else v) s'"
proof (cases "pm_qos_update_target_class k s1 cls req PM_QOS_UPDATE_REQ v None")
  case (Inl e)
  have u: "pm_qos_update_target k (requests s1) c req PM_QOS_UPDATE_REQ v None = Inl e"
    using update_target_class_InlD[OF Inl cc] .
  have "\<not> (ctype c = PM_QOS_MIN \<or> ctype c = PM_QOS_MAX \<or>
           (ctype c = PM_QOS_FORCE_MAX \<and> notifiers c \<noteq> None))"
  proof
    assume a: "ctype c = PM_QOS_MIN \<or> ctype c = PM_QOS_MAX \<or>
           (ctype c = PM_QOS_FORCE_MAX \<and> notifiers c \<noteq> None)"
    from update_target_completes[OF a, of k "requests s1" req PM_QOS_UPDATE_REQ v None] u
    show False by simp
  qed
  then show ?thesis using Inl by auto
next
  case (Inr r)
  obtain ret s' where r: "r = (ret, s')" by (cases r) auto
  let ?nv = "if v = PM_QOS_DEFAULT_VALUE k then default_value c else v"
  from update_target_class_InrD[OF Inr[unfolded r]] cc obtain c' calls where
    u: "pm_qos_update_target k (requests s1) c req PM_QOS_UPDATE_REQ v None
          = Inr (ret, requests s', c', calls)"
    and c': "pm_qos_class_constraints s' cls = Inr c'"
    by auto
  from update_target_InrD[OF u] obtain curr where
    la: "(requests s', plist c') = pm_qos_list_action (requests s1) (plist c) req PM_QOS_UPDATE_REQ ?nv"
    and sv: "pm_qos_set_value_for_cpus k (requests s')
               (c\<lparr>plist := plist c', target_value := curr\<rparr>) = Inr c'"
    and ty: "ctype c' = ctype c"
    by blast
  have m': "requests s' = plist_node_init (requests s1) req ?nv"
    and xs': "plist c' = plist_add (requests s') req (plist_del req (plist c))"
    using la by (simp_all add: pm_qos_list_action_def Let_def)
  have 1: "cpus_affine (requests s' req) = cpus_affine (requests s1 req)"
    and 2: "prio (requests s' req) = ?nv"
    unfolding m' by (simp_all add: plist_node_init_def)
  have 3: "req \<in> set (plist c')"
    by (subst xs') (simp add: set_plist_add)
  have 4: "pm_qos_set_value_for_cpus k (requests s') c' = Inr c'"
    using set_value_for_cpus_idem[OF sv] .
  have len: "length (target_per_cpu c') = length (target_per_cpu c)"
    using set_value_for_cpus_fields[OF sv] by simp
  have 5: "list_all (\<lambda>cpu. cpu \<in> cpu_possible_mask k \<longrightarrow>
                          sint (target_per_cpu c' ! cpu) = spec_per_cpu (requests s') c' cpu)
                [0..<NR_CPUS k]"
    if t: "ctype c = PM_QOS_MIN \<or> ctype c = PM_QOS_MAX"
      and l: "length (target_per_cpu c) = NR_CPUS k"
  proof -
    have t': "ctype c' = PM_QOS_MIN \<or> ctype c' = PM_QOS_MAX" using t ty by simp
    have l': "length (target_per_cpu c') = NR_CPUS k" using l len by simp
    show ?thesis
      unfolding list_all_iff spec_per_cpu_def
      using set_value_for_cpus_nth[OF 4 t' l'] by auto
  qed
  show ?thesis
    unfolding Inr r using 1 2 3 4 5 c' by (simp add: irq_update_post_def)
qed

text \<open>
  C7: for a request whose class has the constraints \<open>c\<close>, \<^verbatim>\<open>pm_qos_irq_notify\<close> copies
  the new mask into \<^verbatim>\<open>cpus_affine\<close> and runs \<^verbatim>\<open>pm_qos_update_target\<close> as an update with
  the value the request has, and \<^verbatim>\<open>pm_qos_irq_release\<close> sets the mask to all CPUs and runs
  the update with the default value of the class.  After either, the request carries that
  mask and value and the per-CPU targets are the ones computed from the masks now stored;
  on \<^verbatim>\<open>PM_QOS_MIN\<close> and \<^verbatim>\<open>PM_QOS_MAX\<close> classes both complete.
\<close>

theorem pm_qos_irq_affinity_update:
  assumes "pm_qos_class_constraints s (pm_qos_class (requests s req)) = Inr c"
  shows
    "pm_qos_irq_notify k s req cpus =
       (case pm_qos_update_target_class k
               (s\<lparr>requests := (requests s)(req := (requests s req)\<lparr>cpus_affine := cpus\<rparr>)\<rparr>)
               (pm_qos_class (requests s req)) req PM_QOS_UPDATE_REQ (prio (requests s req)) None of
          Inl e \<Rightarrow> Inl e
        | Inr (ret, s') \<Rightarrow> Inr s') \<and>
     (case pm_qos_irq_notify k s req cpus of
        Inl e \<Rightarrow> ctype c \<noteq> PM_QOS_MIN \<and> ctype c \<noteq> PM_QOS_MAX \<and>
                 (ctype c = PM_QOS_FORCE_MAX \<longrightarrow> notifiers c = None)
      | Inr s' \<Rightarrow>
          irq_update_post k c (pm_qos_class (requests s req)) req cpus
            (if prio (requests s req) = PM_QOS_DEFAULT_VALUE k then default_value c
             else prio (requests s req)) s') \<and>
     pm_qos_irq_release k s req =
       (case pm_qos_update_target_class k
               (s\<lparr>requests := (requests s)(req := (requests s req)\<lparr>cpus_affine := cpumask_setall k\<rparr>)\<rparr>)
               (pm_qos_class (requests s req)) req PM_QOS_UPDATE_REQ (default_value c) None of
          Inl e \<Rightarrow> Inl e
        | Inr (ret, s') \<Rightarrow> Inr s') \<and>
     (case pm_qos_irq_release k s req of
        Inl e \<Rightarrow> ctype c \<noteq> PM_QOS_MIN \<and> ctype c \<noteq> PM_QOS_MAX \<and>
                 (ctype c = PM_QOS_FORCE_MAX \<longrightarrow> notifiers c = None)
      | Inr s' \<Rightarrow>
          irq_update_post k c (pm_qos_class (requests s req)) req (cpumask_setall k)
            (default_value c) s')"
proof -
  let ?cls = "pm_qos_class (requests s req)"
  let ?s1 = "\<lambda>cpus. s\<lparr>requests := (requests s)(req := (requests s req)\<lparr>cpus_affine := cpus\<rparr>)\<rparr>"
  have cc: "pm_qos_class_constraints (?s1 x) ?cls = Inr c" for x
    using assms class_constraints_array[of "?s1 x" s ?cls] by simp
  have n: "pm_qos_irq_notify k s req cpus =
       (case pm_qos_update_target_class k (?s1 cpus) ?cls req PM_QOS_UPDATE_REQ
               (prio (requests s req)) None of
          Inl e \<Rightarrow> Inl e | Inr (ret, s') \<Rightarrow> Inr s')"
    using assms by (simp add: pm_qos_irq_notify_def Let_def)
  have r: "pm_qos_irq_release k s req =
       (case pm_qos_update_target_class k (?s1 (cpumask_setall k)) ?cls req PM_QOS_UPDATE_REQ
               (default_value c) None of
          Inl e \<Rightarrow> Inl e | Inr (ret, s') \<Rightarrow> Inr s')"
    using assms by (simp add: pm_qos_irq_release_def Let_def)
  have pn: "case pm_qos_irq_notify k s req cpus of
        Inl e \<Rightarrow> ctype c \<noteq> PM_QOS_MIN \<and> ctype c \<noteq> PM_QOS_MAX \<and>
                 (ctype c = PM_QOS_FORCE_MAX \<longrightarrow> notifiers c = None)
      | Inr s' \<Rightarrow>
          irq_update_post k c ?cls req cpus
            (if prio (requests s req) = PM_QOS_DEFAULT_VALUE k then default_value c
             else prio (requests s req)) s'"
    unfolding n
    using irq_update_common[OF cc[of cpus], of k req "prio (requests s req)"]
    by (auto split: sum.splits)
  have pr: "case pm_qos_irq_release k s req of
        Inl e \<Rightarrow> ctype c \<noteq> PM_QOS_MIN \<and> ctype c \<noteq> PM_QOS_MAX \<and>
                 (ctype c = PM_QOS_FORCE_MAX \<longrightarrow> notifiers c = None)
      | Inr s' \<Rightarrow>
          irq_update_post k c ?cls req (cpumask_setall k) (default_value c) s'"
    unfolding r
    using irq_update_common[OF cc[of "cpumask_setall k"], of k req "default_value c"]
    by (auto split: sum.splits)
  show ?thesis using n pn r pr by blast
qed

theorem pm_qos_irq_affinity_update_witness:
  "pm_qos_irq_notify ex_config ex_state2 2 {1}
     = Inr (ex_state2
          \<lparr>requests := (requests ex_state2)(2 := (requests ex_state2 2)\<lparr>cpus_affine := {1}\<rparr>),
           pm_qos_array := (pm_qos_array ex_state2)
             [2 := (pm_qos_array ex_state2 ! 2)
                     \<lparr>constraints := Some (ex_constraints PM_QOS_MAX [2] 50 [10, 50])\<rparr>]\<rparr>) \<and>
   pm_qos_irq_release ex_config ex_state2 2
     = Inr (ex_state2
          \<lparr>requests := (requests ex_state2)
             (2 := (requests ex_state2 2)\<lparr>cpus_affine := {0, 1}, prio := 10\<rparr>),
           pm_qos_array := (pm_qos_array ex_state2)
             [2 := (pm_qos_array ex_state2 ! 2)
                     \<lparr>constraints := Some (ex_constraints PM_QOS_MAX [2] 10 [10, 10])\<rparr>],
           notified := [(7, 10, REQ_CLASS 2)]\<rparr>) \<and>
   irq_update_post ex_config (ex_constraints PM_QOS_MAX [2] 50 [50, 50]) 2 2 {1} 50
     (ex_state2
          \<lparr>requests := (requests ex_state2)(2 := (requests ex_state2 2)\<lparr>cpus_affine := {1}\<rparr>),
           pm_qos_array := (pm_qos_array ex_state2)
             [2 := (pm_qos_array ex_state2 ! 2)
                     \<lparr>constraints := Some (ex_constraints PM_QOS_MAX [2] 50 [10, 50])\<rparr>]\<rparr>)"
proof -
  have c2: "pm_qos_class (requests ex_state2 2) = 2"
    by (simp add: ex_state2_def ex_request_def)
  have h: "pm_qos_class_constraints ex_state2 (pm_qos_class (requests ex_state2 2))
             = Inr (ex_constraints PM_QOS_MAX [2] 50 [50, 50])"
    unfolding c2 by (simp add: pm_qos_class_constraints_def PM_QOS_NUM_CLASSES_def ex_state2_def)
  have e1: "pm_qos_irq_notify ex_config ex_state2 2 {1}
     = Inr (ex_state2
          \<lparr>requests := (requests ex_state2)(2 := (requests ex_state2 2)\<lparr>cpus_affine := {1}\<rparr>),
           pm_qos_array := (pm_qos_array ex_state2)
             [2 := (pm_qos_array ex_state2 ! 2)
                     \<lparr>constraints := Some (ex_constraints PM_QOS_MAX [2] 50 [10, 50])\<rparr>]\<rparr>)"
    by (simp add: pm_qos_irq_notify_def ex_state2_def ex_eval)
  have e2: "pm_qos_irq_release ex_config ex_state2 2
     = Inr (ex_state2
          \<lparr>requests := (requests ex_state2)
             (2 := (requests ex_state2 2)\<lparr>cpus_affine := {0, 1}, prio := 10\<rparr>),
           pm_qos_array := (pm_qos_array ex_state2)
             [2 := (pm_qos_array ex_state2 ! 2)
                     \<lparr>constraints := Some (ex_constraints PM_QOS_MAX [2] 10 [10, 10])\<rparr>],
           notified := [(7, 10, REQ_CLASS 2)]\<rparr>)"
    by (simp add: pm_qos_irq_release_def ex_state2_def ex_eval)
  have p: "prio (requests ex_state2 2) = 50" "PM_QOS_DEFAULT_VALUE ex_config \<noteq> 50"
    by (simp_all add: ex_state2_def ex_request_def ex_config_def)
  from pm_qos_irq_affinity_update[OF h, of ex_config "{1}"]
  show ?thesis
    unfolding e1 e2 c2 p by (simp add: p)
qed

subsection \<open>Adding and removing a request\<close>

lemma plist_ordered_cong:
  "\<forall>n \<in> set xs. prio (m' n) = prio (m n) \<Longrightarrow> plist_ordered m' xs = plist_ordered m xs"
proof -
  assume "\<forall>n \<in> set xs. prio (m' n) = prio (m n)"
  then have "map (node_prio m') xs = map (node_prio m) xs"
    by (simp add: node_prio_def)
  then show ?thesis unfolding plist_ordered_def by (simp only:)
qed

lemma spec_aggregate_cong:
  assumes "\<forall>n \<in> set (plist c). prio (m' n) = prio (m n)"
  shows "spec_aggregate m' c v = spec_aggregate m c v"
proof -
  have 1: "node_prio m' ` set (plist c) = node_prio m ` set (plist c)"
    using assms by (auto simp: node_prio_def image_iff)
  have 2: "map (node_prio m') (plist c) = map (node_prio m) (plist c)"
    using assms by (simp add: node_prio_def)
  show ?thesis
    by (cases "ctype c") (simp_all add: spec_aggregate_def 1 2)
qed

lemma plist_del_add:
  "node \<notin> set xs \<Longrightarrow> plist_del node (plist_add m node xs) = xs"
  by (induction xs) (auto simp: plist_del_def)

lemma update_target_stored_aggregate:
  assumes u: "pm_qos_update_target k m c req action val p = Inr (ret, m', c', calls)"
      and ord: "plist_ordered m (plist c)"
      and fresh: "action = PM_QOS_ADD_REQ \<longrightarrow> req \<notin> set (plist c)"
  shows "plist_ordered m' (plist c') \<and> spec_aggregate m' c' (target_value c')"
proof -
  from update_target_InrD[OF u] obtain curr where
    la: "(m', plist c') = pm_qos_list_action m (plist c) req action
           (if val = PM_QOS_DEFAULT_VALUE k then default_value c else val)"
    and g: "pm_qos_get_value m' c' = Inr curr" and t: "target_value c' = curr"
    by blast
  have o: "plist_ordered m' (plist c')"
    using list_action_ordered[OF ord fresh la[symmetric]] .
  have ne: "plist c' = [] \<or> ctype c' \<noteq> PM_QOS_UNITIALIZED"
    using g by (auto simp: pm_qos_get_value_def plist_head_empty_def)
  from get_value_spec[OF o ne] g t o show ?thesis by auto
qed

lemma add_request_fresh:
  assumes cc: "pm_qos_class_constraints s cls = Inr c"
      and ord: "plist_ordered (requests s) (plist c)"
      and fresh: "req \<notin> set (plist c)"
      and nn: "req \<noteq> NULL"
      and z: "requests s req = zero_request"
  shows "case pm_qos_add_request_trace k s req cls (PM_QOS_DEFAULT_VALUE k) of
           Inl e \<Rightarrow> \<not> update_cannot_fault c
         | Inr s1 \<Rightarrow>
             allocated s1 = allocated s \<and>
             pm_qos_class (requests s1 req) = cls \<and>
             prio (requests s1 req) = default_value c \<and>
             work_pending (requests s1 req) = False \<and>
             (\<exists>c1. pm_qos_class_constraints s1 cls = Inr c1 \<and>
                   plist c1 = plist_add (requests s1) req (plist c) \<and>
                   plist_ordered (requests s1) (plist c1) \<and>
                   spec_aggregate (requests s1) c1 (target_value c1) \<and>
                   ctype c1 = ctype c \<and> notifiers c1 = notifiers c)"
proof -
  let ?r = "(pm_qos_add_request_affinity k (requests s req))
              \<lparr>pm_qos_class := cls, work_pending := False\<rparr>"
  let ?s1 = "s\<lparr>requests := (requests s)(req := ?r)\<rparr>"
  let ?v = "PM_QOS_DEFAULT_VALUE k"
  have na: "\<not> pm_qos_request_active (requests s) req"
    using z by (simp add: pm_qos_request_active_def zero_request_def)
  have a: "pm_qos_add_request_trace k s req cls ?v =
      (case pm_qos_update_target_class k ?s1 cls req PM_QOS_ADD_REQ ?v None of
         Inl e \<Rightarrow> Inl e | Inr (ret, s') \<Rightarrow> Inr s')"
    using nn na by (simp add: pm_qos_add_request_trace_def Let_def)
  have cc1: "pm_qos_class_constraints ?s1 cls = Inr c"
    using cc class_constraints_array[of ?s1 s cls] by simp
  have ord1: "plist_ordered (requests ?s1) (plist c)"
    using ord fresh plist_ordered_cong[of "plist c" "requests ?s1" "requests s"] by auto
  show ?thesis
  proof (cases "pm_qos_update_target_class k ?s1 cls req PM_QOS_ADD_REQ ?v None")
    case (Inl e)
    have u: "pm_qos_update_target k (requests ?s1) c req PM_QOS_ADD_REQ ?v None = Inl e"
      using update_target_class_InlD[OF Inl cc1] .
    have "\<not> update_cannot_fault c"
    proof
      assume "update_cannot_fault c"
      then have h: "ctype c = PM_QOS_MIN \<or> ctype c = PM_QOS_MAX \<or>
           (ctype c = PM_QOS_FORCE_MAX \<and> notifiers c \<noteq> None)"
        by (simp add: update_cannot_fault_def)
      from update_target_completes[OF h, of k "requests ?s1" req PM_QOS_ADD_REQ ?v None] u
      show False by simp
    qed
    then show ?thesis unfolding a Inl by simp
  next
    case (Inr r)
    obtain ret s' where r: "r = (ret, s')" by (cases r) auto
    from update_target_class_InrD[OF Inr[unfolded r]] cc1 obtain c1 calls where
      u: "pm_qos_update_target k (requests ?s1) c req PM_QOS_ADD_REQ ?v None
            = Inr (ret, requests s', c1, calls)"
      and c1: "pm_qos_class_constraints s' cls = Inr c1"
      and al: "allocated s' = allocated ?s1"
      by auto
    from update_target_InrD[OF u] have
      la: "(requests s', plist c1) = pm_qos_list_action (requests ?s1) (plist c) req
             PM_QOS_ADD_REQ (default_value c)"
      and ty: "ctype c1 = ctype c" "notifiers c1 = notifiers c"
      by auto
    have m': "requests s' = plist_node_init (requests ?s1) req (default_value c)"
      and xs': "plist c1 = plist_add (requests s') req (plist c)"
      using la by (simp_all add: pm_qos_list_action_def Let_def)
    have f: "pm_qos_class (requests s' req) = cls" "prio (requests s' req) = default_value c"
      "work_pending (requests s' req) = False"
      unfolding m' by (simp_all add: plist_node_init_def)
    have "action = PM_QOS_ADD_REQ \<longrightarrow> req \<notin> set (plist c)" for action :: pm_qos_req_action
      using fresh by simp
    from update_target_stored_aggregate[OF u ord1 this]
    have "plist_ordered (requests s') (plist c1) \<and> spec_aggregate (requests s') c1 (target_value c1)" .
    then show ?thesis
      unfolding a Inr r using al f c1 xs' ty by simp
  qed
qed

lemma remove_request_listed:
  assumes cc: "pm_qos_class_constraints s cls = Inr c"
      and ord: "plist_ordered (requests s) (plist c)"
      and act: "pm_qos_class (requests s req) = cls" "cls \<noteq> 0"
      and nn: "req \<noteq> NULL"
  shows "case pm_qos_remove_request k s req of
           Inl e \<Rightarrow> \<not> update_cannot_fault c
         | Inr s2 \<Rightarrow>
             allocated s2 = allocated s \<and> requests s2 req = zero_request \<and>
             (\<exists>c2. pm_qos_class_constraints s2 cls = Inr c2 \<and>
                   plist c2 = plist_del req (plist c) \<and>
                   spec_aggregate (requests s2) c2 (target_value c2))"
proof -
  let ?s1 = "cancel_pending_work s req"
  let ?v = "PM_QOS_DEFAULT_VALUE k"
  have ac: "pm_qos_request_active (requests s) req"
    using act by (simp add: pm_qos_request_active_def)
  have cl: "pm_qos_class (requests ?s1 req) = cls"
    using act by (simp add: cancel_pending_work_def)
  have a: "pm_qos_remove_request k s req =
      (case pm_qos_update_target_class k ?s1 cls req PM_QOS_REMOVE_REQ ?v None of
         Inl e \<Rightarrow> Inl e
       | Inr (ret, s') \<Rightarrow> Inr (s'\<lparr>requests := (requests s')(req := zero_request)\<rparr>))"
    using nn ac cl by (simp add: pm_qos_remove_request_def Let_def)
  have cc1: "pm_qos_class_constraints ?s1 cls = Inr c"
    using cc class_constraints_array[of ?s1 s cls] by (simp add: cancel_pending_work_def)
  have pr: "\<forall>n. prio (requests ?s1 n) = prio (requests s n)"
    by (simp add: cancel_pending_work_def)
  have ord1: "plist_ordered (requests ?s1) (plist c)"
    using ord plist_ordered_cong[of "plist c" "requests ?s1" "requests s"] pr by simp
  have al1: "allocated ?s1 = allocated s"
    by (simp add: cancel_pending_work_def)
  show ?thesis
  proof (cases "pm_qos_update_target_class k ?s1 cls req PM_QOS_REMOVE_REQ ?v None")
    case (Inl e)
    have u: "pm_qos_update_target k (requests ?s1) c req PM_QOS_REMOVE_REQ ?v None = Inl e"
      using update_target_class_InlD[OF Inl cc1] .
    have "\<not> update_cannot_fault c"
    proof
      assume "update_cannot_fault c"
      then have h: "ctype c = PM_QOS_MIN \<or> ctype c = PM_QOS_MAX \<or>
           (ctype c = PM_QOS_FORCE_MAX \<and> notifiers c \<noteq> None)"
        by (simp add: update_cannot_fault_def)
      from update_target_completes[OF h, of k "requests ?s1" req PM_QOS_REMOVE_REQ ?v None] u
      show False by simp
    qed
    then show ?thesis unfolding a Inl by simp
  next
    case (Inr r)
    obtain ret s' where r: "r = (ret, s')" by (cases r) auto
    let ?s2 = "s'\<lparr>requests := (requests s')(req := zero_request)\<rparr>"
    from update_target_class_InrD[OF Inr[unfolded r]] cc1 obtain c2 calls where
      u: "pm_qos_update_target k (requests ?s1) c req PM_QOS_REMOVE_REQ ?v None
            = Inr (ret, requests s', c2, calls)"
      and c2: "pm_qos_class_constraints s' cls = Inr c2"
      and al: "allocated s' = allocated ?s1"
      by auto
    from update_target_InrD[OF u] have
      la: "(requests s', plist c2) = pm_qos_list_action (requests ?s1) (plist c) req
             PM_QOS_REMOVE_REQ (default_value c)"
      by auto
    have xs': "plist c2 = plist_del req (plist c)"
      using la by (simp add: pm_qos_list_action_def)
    have "PM_QOS_REMOVE_REQ = PM_QOS_ADD_REQ \<longrightarrow> req \<notin> set (plist c)" by simp
    from update_target_stored_aggregate[OF u ord1 this]
    have sa: "spec_aggregate (requests s') c2 (target_value c2)" by simp
    have "req \<notin> set (plist c2)"
      unfolding xs' by (simp add: plist_del_def)
    then have "spec_aggregate (requests ?s2) c2 (target_value c2)"
      using sa spec_aggregate_cong[of c2 "requests ?s2" "requests s'" "target_value c2"] by auto
    moreover have "pm_qos_class_constraints ?s2 cls = Inr c2"
      using c2 class_constraints_array[of ?s2 s' cls] by simp
    ultimately show ?thesis
      unfolding a Inr r using al al1 xs' by simp
  qed
qed

subsection \<open>The misc devices\<close>

lemma find_minor_none:
  assumes "\<forall>i. PM_QOS_CPU_DMA_LATENCY \<le> i \<and> i < PM_QOS_NUM_CLASSES s \<longrightarrow>
             miscdev_minor (pm_qos_array s ! i) \<noteq> mnr"
  shows "find_pm_qos_object_by_minor s mnr = - 1"
proof -
  have "filter (\<lambda>cls. mnr = miscdev_minor (pm_qos_array s ! cls))
          [PM_QOS_CPU_DMA_LATENCY..<PM_QOS_NUM_CLASSES s] = []"
    using assms by (auto simp: filter_empty_conv)
  then show ?thesis by (simp add: find_pm_qos_object_by_minor_def)
qed

lemma find_minor_some:
  assumes "PM_QOS_CPU_DMA_LATENCY \<le> i" and "i < PM_QOS_NUM_CLASSES s"
      and "miscdev_minor (pm_qos_array s ! i) = mnr"
  shows "int PM_QOS_CPU_DMA_LATENCY \<le> find_pm_qos_object_by_minor s mnr"
proof -
  let ?xs = "filter (\<lambda>cls. mnr = miscdev_minor (pm_qos_array s ! cls))
          [PM_QOS_CPU_DMA_LATENCY..<PM_QOS_NUM_CLASSES s]"
  have "i \<in> set ?xs" using assms by simp
  then obtain y ys where e: "?xs = y # ys" by (cases ?xs) auto
  then have "y \<in> set ?xs" by simp
  then have "PM_QOS_CPU_DMA_LATENCY \<le> y" by simp
  then show ?thesis using e by (simp add: find_pm_qos_object_by_minor_def)
qed

lemma find_minor_match:
  assumes "int PM_QOS_CPU_DMA_LATENCY \<le> find_pm_qos_object_by_minor s mnr"
  shows "nat (find_pm_qos_object_by_minor s mnr) < PM_QOS_NUM_CLASSES s \<and>
         miscdev_minor (pm_qos_array s ! nat (find_pm_qos_object_by_minor s mnr)) = mnr"
proof -
  let ?xs = "filter (\<lambda>cls. mnr = miscdev_minor (pm_qos_array s ! cls))
          [PM_QOS_CPU_DMA_LATENCY..<PM_QOS_NUM_CLASSES s]"
  show ?thesis
  proof (cases ?xs)
    case Nil
    then show ?thesis using assms by (simp add: find_pm_qos_object_by_minor_def)
  next
    case (Cons y ys)
    then have "y \<in> set ?xs" by simp
    then have "y < PM_QOS_NUM_CLASSES s \<and> miscdev_minor (pm_qos_array s ! y) = mnr" by simp
    then show ?thesis using Cons by (simp add: find_pm_qos_object_by_minor_def)
  qed
qed

text \<open>
  C10 (as stated): opening the misc device of a class adds a request at
  \<^verbatim>\<open>PM_QOS_DEFAULT_VALUE\<close> for that class, whatever the class.  The request is handed to
  \<^verbatim>\<open>pm_qos_add_request\<close> with \<^verbatim>\<open>PM_QOS_DEFAULT_VALUE\<close>, and \<^verbatim>\<open>pm_qos_update_target\<close>
  replaces that value by the default value of the class: on a \<^verbatim>\<open>PM_QOS_MAX\<close> class with
  default value 10 the request is linked with value 10 while \<^verbatim>\<open>PM_QOS_DEFAULT_VALUE\<close> is -1.
  On a \<^verbatim>\<open>PM_QOS_SUM\<close> class the open does not return: it ends in the \<^verbatim>\<open>BUG()\<close> of the
  per-CPU loop (C5).
\<close>

theorem pm_qos_power_open_counterexample:
  "pm_qos_power_open ex_config ex_state2 \<lparr>private_data = 0\<rparr> 62 9
     = Inr (0, ex_state2
          \<lparr>requests := (requests ex_state2)
             (9 := \<lparr>req_type = PM_QOS_REQ_ALL_CORES, cpus_affine = {0, 1}, irq = 0, prio = 10,
                    pm_qos_class = 2, work_pending = False\<rparr>),
           pm_qos_array := (pm_qos_array ex_state2)
             [2 := (pm_qos_array ex_state2 ! 2)
                     \<lparr>constraints := Some (ex_constraints PM_QOS_MAX [9, 2] 50 [50, 50])\<rparr>],
           allocated := {9}\<rparr>, \<lparr>private_data = 9\<rparr>) \<and>
   PM_QOS_DEFAULT_VALUE ex_config = - 1 \<and>
   default_value (ex_constraints PM_QOS_MAX [2] 50 [50, 50]) = 10 \<and>
   (10 :: s32) \<noteq> - 1 \<and>
   pm_qos_power_open ex_config (ex_state (ex_constraints PM_QOS_SUM [] 10 [10, 10]))
       \<lparr>private_data = 0\<rparr> 61 9 = Inl BUG"
proof -
  have fnd: "find_pm_qos_object_by_minor ex_state2 62 = 2"
    "find_pm_qos_object_by_minor (ex_state (ex_constraints PM_QOS_SUM [] 10 [10, 10])) 61 = 1"
    by (simp_all add: find_pm_qos_object_by_minor_def PM_QOS_CPU_DMA_LATENCY_def
        PM_QOS_NUM_CLASSES_def ex_state2_def ex_state_def upt_conv_Cons)
  have e1: "pm_qos_power_open ex_config ex_state2 \<lparr>private_data = 0\<rparr> 62 9
     = Inr (0, ex_state2
          \<lparr>requests := (requests ex_state2)
             (9 := \<lparr>req_type = PM_QOS_REQ_ALL_CORES, cpus_affine = {0, 1}, irq = 0, prio = 10,
                    pm_qos_class = 2, work_pending = False\<rparr>),
           pm_qos_array := (pm_qos_array ex_state2)
             [2 := (pm_qos_array ex_state2 ! 2)
                     \<lparr>constraints := Some (ex_constraints PM_QOS_MAX [9, 2] 50 [50, 50])\<rparr>],
           allocated := {9}\<rparr>, \<lparr>private_data = 9\<rparr>)"
    unfolding pm_qos_power_open_def fnd
    by (simp add: PM_QOS_CPU_DMA_LATENCY_def NULL_def pm_qos_add_request_trace_def
        pm_qos_request_active_def pm_qos_add_request_affinity_def ex_state2_def ex_eval)
  have e2: "pm_qos_power_open ex_config (ex_state (ex_constraints PM_QOS_SUM [] 10 [10, 10]))
       \<lparr>private_data = 0\<rparr> 61 9 = Inl BUG"
    unfolding pm_qos_power_open_def fnd
    by (simp add: PM_QOS_CPU_DMA_LATENCY_def NULL_def pm_qos_add_request_trace_def
        pm_qos_request_active_def pm_qos_add_request_affinity_def ex_state_def ex_eval)
  have e3: "PM_QOS_DEFAULT_VALUE ex_config = - 1"
    "default_value (ex_constraints PM_QOS_MAX [2] 50 [50, 50]) = 10" "(10 :: s32) \<noteq> - 1"
    by (simp_all add: ex_config_def ex_constraints_def)
  from e1 e2 e3 show ?thesis by (simp only: simp_thms)
qed

text \<open>
  C10 (amended): \<^verbatim>\<open>pm_qos_power_open\<close> returns \<^verbatim>\<open>-EPERM\<close> when no class has the minor,
  and \<^verbatim>\<open>-ENOMEM\<close> when a class has it and the allocation fails, leaving the state as it
  was.  Otherwise, for the class \<open>cls\<close> found, of type \<^verbatim>\<open>PM_QOS_MIN\<close> or \<^verbatim>\<open>PM_QOS_MAX\<close>, or
  \<^verbatim>\<open>PM_QOS_FORCE_MAX\<close> with a notifier chain (well-formed list, freshly allocated request),
  it returns 0 with a new request of that class, added with \<^verbatim>\<open>PM_QOS_DEFAULT_VALUE\<close> and so
  linked at the default value of the class, and stored in the file;
  \<^verbatim>\<open>pm_qos_power_release\<close> on that file returns 0 with the request removed, zeroed and
  freed, the list as before the open, and the target the aggregate of that list.  What
  happens on a class of another type is left open here.
\<close>

theorem pm_qos_power_open_release:
  "((\<forall>i. PM_QOS_CPU_DMA_LATENCY \<le> i \<and> i < PM_QOS_NUM_CLASSES s \<longrightarrow>
          miscdev_minor (pm_qos_array s ! i) \<noteq> mnr) \<longrightarrow>
      pm_qos_power_open k s filp mnr new_req = Inr (- EPERM, s, filp)) \<and>
   ((\<exists>i. PM_QOS_CPU_DMA_LATENCY \<le> i \<and> i < PM_QOS_NUM_CLASSES s \<and>
          miscdev_minor (pm_qos_array s ! i) = mnr) \<and> new_req = NULL \<longrightarrow>
      pm_qos_power_open k s filp mnr new_req = Inr (- ENOMEM, s, filp)) \<and>
   (int PM_QOS_CPU_DMA_LATENCY \<le> cls \<and> find_pm_qos_object_by_minor s mnr = cls \<and>
    pm_qos_class_constraints s cls = Inr c \<and> plist_ordered (requests s) (plist c) \<and>
    new_req \<noteq> NULL \<and> new_req \<notin> set (plist c) \<longrightarrow>
      miscdev_minor (pm_qos_array s ! nat cls) = mnr \<and>
      (case pm_qos_power_open k s filp mnr new_req of
         Inl e \<Rightarrow> \<not> update_cannot_fault c
       | Inr (ret, s1, filp1) \<Rightarrow>
           ret = 0 \<and> open_post c cls new_req s1 filp1 \<and>
           (case pm_qos_power_release k s1 filp1 of
              Inl e \<Rightarrow> \<not> update_cannot_fault c
            | Inr (ret2, s2) \<Rightarrow> ret2 = 0 \<and> release_post c cls new_req s2)))"
proof (intro conjI impI)
  assume "\<forall>i. PM_QOS_CPU_DMA_LATENCY \<le> i \<and> i < PM_QOS_NUM_CLASSES s \<longrightarrow>
          miscdev_minor (pm_qos_array s ! i) \<noteq> mnr"
  from find_minor_none[OF this]
  show "pm_qos_power_open k s filp mnr new_req = Inr (- EPERM, s, filp)"
    by (simp add: pm_qos_power_open_def PM_QOS_CPU_DMA_LATENCY_def)
next
  assume "(\<exists>i. PM_QOS_CPU_DMA_LATENCY \<le> i \<and> i < PM_QOS_NUM_CLASSES s \<and>
          miscdev_minor (pm_qos_array s ! i) = mnr) \<and> new_req = NULL"
  then have "int PM_QOS_CPU_DMA_LATENCY \<le> find_pm_qos_object_by_minor s mnr"
    and "new_req = NULL"
    using find_minor_some by auto
  then show "pm_qos_power_open k s filp mnr new_req = Inr (- ENOMEM, s, filp)"
    by (simp add: pm_qos_power_open_def)
next
  assume h: "int PM_QOS_CPU_DMA_LATENCY \<le> cls \<and> find_pm_qos_object_by_minor s mnr = cls \<and>
    pm_qos_class_constraints s cls = Inr c \<and> plist_ordered (requests s) (plist c) \<and>
    new_req \<noteq> NULL \<and> new_req \<notin> set (plist c)"
  then show "miscdev_minor (pm_qos_array s ! nat cls) = mnr"
    using find_minor_match[of s mnr] by auto
next
  assume h: "int PM_QOS_CPU_DMA_LATENCY \<le> cls \<and> find_pm_qos_object_by_minor s mnr = cls \<and>
    pm_qos_class_constraints s cls = Inr c \<and> plist_ordered (requests s) (plist c) \<and>
    new_req \<noteq> NULL \<and> new_req \<notin> set (plist c)"
  then have ge: "int PM_QOS_CPU_DMA_LATENCY \<le> cls" and fnd: "find_pm_qos_object_by_minor s mnr = cls"
    and cc: "pm_qos_class_constraints s cls = Inr c"
    and ord: "plist_ordered (requests s) (plist c)"
    and nn: "new_req \<noteq> NULL" and fresh: "new_req \<notin> set (plist c)"
    by auto
  have cls0: "cls \<noteq> 0" using ge by (simp add: PM_QOS_CPU_DMA_LATENCY_def)
  let ?s0 = "s\<lparr>requests := (requests s)(new_req := zero_request),
               allocated := insert new_req (allocated s)\<rparr>"
  let ?v = "PM_QOS_DEFAULT_VALUE k"
  have o: "pm_qos_power_open k s filp mnr new_req =
      (case pm_qos_add_request_trace k ?s0 new_req cls ?v of
         Inl e \<Rightarrow> Inl e
       | Inr s' \<Rightarrow> Inr (0, s', filp\<lparr>private_data := new_req\<rparr>))"
    using ge fnd nn by (simp add: pm_qos_power_open_def Let_def)
  have cc0: "pm_qos_class_constraints ?s0 cls = Inr c"
    using cc class_constraints_array[of ?s0 s cls] by simp
  have ord0: "plist_ordered (requests ?s0) (plist c)"
    using ord fresh plist_ordered_cong[of "plist c" "requests ?s0" "requests s"] by auto
  have z0: "requests ?s0 new_req = zero_request" by simp
  note A = add_request_fresh[OF cc0 ord0 fresh nn z0, of k]
  show "case pm_qos_power_open k s filp mnr new_req of
         Inl e \<Rightarrow> \<not> update_cannot_fault c
       | Inr (ret, s1, filp1) \<Rightarrow>
           ret = 0 \<and> open_post c cls new_req s1 filp1 \<and>
           (case pm_qos_power_release k s1 filp1 of
              Inl e \<Rightarrow> \<not> update_cannot_fault c
            | Inr (ret2, s2) \<Rightarrow> ret2 = 0 \<and> release_post c cls new_req s2)"
  proof (cases "pm_qos_add_request_trace k ?s0 new_req cls ?v")
    case (Inl e)
    then show ?thesis using A unfolding o by simp
  next
    case (Inr s1)
    from A[unfolded Inr] obtain c1 where
      al: "allocated s1 = allocated ?s0"
      and f: "pm_qos_class (requests s1 new_req) = cls" "prio (requests s1 new_req) = default_value c"
      and c1: "pm_qos_class_constraints s1 cls = Inr c1"
      and xs1: "plist c1 = plist_add (requests s1) new_req (plist c)"
      and ord1: "plist_ordered (requests s1) (plist c1)"
      and sa1: "spec_aggregate (requests s1) c1 (target_value c1)"
      and ty: "ctype c1 = ctype c" "notifiers c1 = notifiers c"
      by auto
    have op: "open_post c cls new_req s1 (filp\<lparr>private_data := new_req\<rparr>)"
      using al f c1 xs1 ord1 sa1 by (simp add: open_post_def set_plist_add)
    have ucf: "update_cannot_fault c1 = update_cannot_fault c"
      using ty by (simp add: update_cannot_fault_def)
    note R = remove_request_listed[OF c1 ord1 f(1) cls0 nn, of k]
    have rel: "pm_qos_power_release k s1 (filp\<lparr>private_data := new_req\<rparr>) =
        (case pm_qos_remove_request k s1 new_req of
           Inl e \<Rightarrow> Inl e
         | Inr s' \<Rightarrow> Inr (0, s'\<lparr>allocated := allocated s' - {new_req}\<rparr>))"
      by (simp add: pm_qos_power_release_def Let_def)
    have "case pm_qos_power_release k s1 (filp\<lparr>private_data := new_req\<rparr>) of
              Inl e \<Rightarrow> \<not> update_cannot_fault c
            | Inr (ret2, s2) \<Rightarrow> ret2 = 0 \<and> release_post c cls new_req s2"
    proof (cases "pm_qos_remove_request k s1 new_req")
      case (Inl e)
      then show ?thesis using R ucf unfolding rel by simp
    next
      case (Inr s')
      let ?s2 = "s'\<lparr>allocated := allocated s' - {new_req}\<rparr>"
      from R[unfolded Inr] obtain c2 where
        z: "requests s' new_req = zero_request"
        and c2: "pm_qos_class_constraints s' cls = Inr c2"
        and xs2: "plist c2 = plist_del new_req (plist c1)"
        and sa2: "spec_aggregate (requests s') c2 (target_value c2)"
        by auto
      have "plist c2 = plist c"
        unfolding xs2 xs1 using plist_del_add[OF fresh] .
      moreover have "pm_qos_class_constraints ?s2 cls = Inr c2"
        using c2 class_constraints_array[of ?s2 s' cls] by simp
      ultimately have "release_post c cls new_req ?s2"
        using z sa2 by (simp add: release_post_def)
      then show ?thesis unfolding rel Inr by simp
    qed
    then show ?thesis unfolding o Inr using op by simp
  qed
qed

theorem pm_qos_power_open_release_witness:
  "pm_qos_power_open ex_config ex_state2 \<lparr>private_data = 0\<rparr> 62 9
     = Inr (0, ex_state2
          \<lparr>requests := (requests ex_state2)
             (9 := \<lparr>req_type = PM_QOS_REQ_ALL_CORES, cpus_affine = {0, 1}, irq = 0, prio = 10,
                    pm_qos_class = 2, work_pending = False\<rparr>),
           pm_qos_array := (pm_qos_array ex_state2)
             [2 := (pm_qos_array ex_state2 ! 2)
                     \<lparr>constraints := Some (ex_constraints PM_QOS_MAX [9, 2] 50 [50, 50])\<rparr>],
           allocated := {9}\<rparr>, \<lparr>private_data = 9\<rparr>) \<and>
   pm_qos_power_release ex_config
       (ex_state2
          \<lparr>requests := (requests ex_state2)
             (9 := \<lparr>req_type = PM_QOS_REQ_ALL_CORES, cpus_affine = {0, 1}, irq = 0, prio = 10,
                    pm_qos_class = 2, work_pending = False\<rparr>),
           pm_qos_array := (pm_qos_array ex_state2)
             [2 := (pm_qos_array ex_state2 ! 2)
                     \<lparr>constraints := Some (ex_constraints PM_QOS_MAX [9, 2] 50 [50, 50])\<rparr>],
           allocated := {9}\<rparr>) \<lparr>private_data = 9\<rparr>
     = Inr (0, ex_state2) \<and>
   release_post (ex_constraints PM_QOS_MAX [2] 50 [50, 50]) 2 9 ex_state2 \<and>
   pm_qos_power_open ex_config ex_state2 \<lparr>private_data = 0\<rparr> 99 9
     = Inr (- EPERM, ex_state2, \<lparr>private_data = 0\<rparr>) \<and>
   pm_qos_power_open ex_config ex_state2 \<lparr>private_data = 0\<rparr> 62 NULL
     = Inr (- ENOMEM, ex_state2, \<lparr>private_data = 0\<rparr>)"
proof -
  let ?c = "ex_constraints PM_QOS_MAX [2] 50 [50, 50]"
  let ?s1 = "ex_state2
          \<lparr>requests := (requests ex_state2)
             (9 := \<lparr>req_type = PM_QOS_REQ_ALL_CORES, cpus_affine = {0, 1}, irq = 0, prio = 10,
                    pm_qos_class = 2, work_pending = False\<rparr>),
           pm_qos_array := (pm_qos_array ex_state2)
             [2 := (pm_qos_array ex_state2 ! 2)
                     \<lparr>constraints := Some (ex_constraints PM_QOS_MAX [9, 2] 50 [50, 50])\<rparr>],
           allocated := {9}\<rparr>"
  have fnd: "find_pm_qos_object_by_minor ex_state2 62 = 2"
    "find_pm_qos_object_by_minor ex_state2 99 = - 1"
    by (simp_all add: find_pm_qos_object_by_minor_def PM_QOS_CPU_DMA_LATENCY_def
        PM_QOS_NUM_CLASSES_def ex_state2_def upt_conv_Cons)
  have e1: "pm_qos_power_open ex_config ex_state2 \<lparr>private_data = 0\<rparr> 62 9
              = Inr (0, ?s1, \<lparr>private_data = 9\<rparr>)"
    unfolding pm_qos_power_open_def fnd
    by (simp add: PM_QOS_CPU_DMA_LATENCY_def NULL_def pm_qos_add_request_trace_def
        pm_qos_request_active_def pm_qos_add_request_affinity_def ex_state2_def ex_eval)
  have e2: "pm_qos_power_release ex_config ?s1 \<lparr>private_data = 9\<rparr> = Inr (0, ex_state2)"
    by (simp add: pm_qos_power_release_def pm_qos_remove_request_def NULL_def
        pm_qos_request_active_def cancel_pending_work_def ex_state2_def ex_eval)
       (simp add: fun_eq_iff)
  have e3: "pm_qos_power_open ex_config ex_state2 \<lparr>private_data = 0\<rparr> 99 9
     = Inr (- EPERM, ex_state2, \<lparr>private_data = 0\<rparr>)"
    unfolding pm_qos_power_open_def fnd by (simp add: PM_QOS_CPU_DMA_LATENCY_def)
  have e4: "pm_qos_power_open ex_config ex_state2 \<lparr>private_data = 0\<rparr> 62 NULL
     = Inr (- ENOMEM, ex_state2, \<lparr>private_data = 0\<rparr>)"
    unfolding pm_qos_power_open_def fnd by (simp add: PM_QOS_CPU_DMA_LATENCY_def)
  have h: "int PM_QOS_CPU_DMA_LATENCY \<le> 2 \<and> find_pm_qos_object_by_minor ex_state2 62 = 2 \<and>
    pm_qos_class_constraints ex_state2 2 = Inr ?c \<and>
    plist_ordered (requests ex_state2) (plist ?c) \<and> 9 \<noteq> NULL \<and> 9 \<notin> set (plist ?c)"
    unfolding fnd
    by (simp add: PM_QOS_CPU_DMA_LATENCY_def NULL_def pm_qos_class_constraints_def
        PM_QOS_NUM_CLASSES_def ex_state2_def plist_ordered_def ex_constraints_def)
  from pm_qos_power_open_release[where k = ex_config and s = ex_state2
      and filp = "\<lparr>private_data = 0\<rparr>" and mnr = 62 and new_req = 9 and cls = 2 and c = ?c] h
  have "case pm_qos_power_open ex_config ex_state2 \<lparr>private_data = 0\<rparr> 62 9 of
         Inl e \<Rightarrow> \<not> update_cannot_fault ?c
       | Inr (ret, s1, filp1) \<Rightarrow>
           ret = 0 \<and> open_post ?c 2 9 s1 filp1 \<and>
           (case pm_qos_power_release ex_config s1 filp1 of
              Inl e \<Rightarrow> \<not> update_cannot_fault ?c
            | Inr (ret2, s2) \<Rightarrow> ret2 = 0 \<and> release_post ?c 2 9 s2)"
    by blast
  then have "release_post ?c 2 9 ex_state2"
    by (simp only: e1 e2 sum.case prod.case)
  with e1 e2 e3 e4 show ?thesis by simp
qed

end
